theory Spec2Isabelle
  imports Complex_Main "HOL-Library.Word" "HOL-Library.Multiset"
begin

section \<open>Vectors, rays and hit records\<close>

text \<open>
  The renderer computes with C++ \<open>float\<close>. The embedding reads every \<open>float\<close> as a
  real number and every arithmetic operation as the exact one: rounding, infinities and
  NaN are outside the model. Where the program can divide by zero the text says so.
  Two later sections read parts of the program a second time: \<open>render_tile_optimized\<close>
  and its integrator with the infinities and NaN that their divisions by zero produce,
  and \<open>Sphere::Hit\<close> with every operation rounded to single precision, for the one
  question that rounding decides.

  \<open>Vec3\<close> wraps \<open>float m_fAxis[3]\<close>; the three cells are the fields \<open>e0\<close>, \<open>e1\<close>,
  \<open>e2\<close> (\<open>GetX\<close>, \<open>GetY\<close>, \<open>GetZ\<close>).
\<close>

record Vec3 =
  e0 :: real
  e1 :: real
  e2 :: real

definition V3 :: "real \<Rightarrow> real \<Rightarrow> real \<Rightarrow> Vec3" where
  "V3 a b c = \<lparr>e0 = a, e1 = b, e2 = c\<rparr>"

definition GetY :: "Vec3 \<Rightarrow> real" where
  "GetY v = e1 v"

text \<open>\<open>operator+\<close>, \<open>operator-\<close>, \<open>operator*\<close> (component-wise), unary minus.\<close>

definition vadd :: "Vec3 \<Rightarrow> Vec3 \<Rightarrow> Vec3" where
  "vadd l r = V3 (e0 l + e0 r) (e1 l + e1 r) (e2 l + e2 r)"

definition vsub :: "Vec3 \<Rightarrow> Vec3 \<Rightarrow> Vec3" where
  "vsub l r = V3 (e0 l - e0 r) (e1 l - e1 r) (e2 l - e2 r)"

definition vmul :: "Vec3 \<Rightarrow> Vec3 \<Rightarrow> Vec3" where
  "vmul l r = V3 (e0 l * e0 r) (e1 l * e1 r) (e2 l * e2 r)"

definition vneg :: "Vec3 \<Rightarrow> Vec3" where
  "vneg v = V3 (- e0 v) (- e1 v) (- e2 v)"

text \<open>\<open>operator*(float, Vec3)\<close>, \<open>operator*(Vec3, float)\<close> and \<open>operator/(Vec3, float)\<close>.\<close>

definition smul :: "real \<Rightarrow> Vec3 \<Rightarrow> Vec3" where
  "smul d v = V3 (d * e0 v) (d * e1 v) (d * e2 v)"

definition vmuls :: "Vec3 \<Rightarrow> real \<Rightarrow> Vec3" where
  "vmuls v d = V3 (e0 v * d) (e1 v * d) (e2 v * d)"

definition vdivs :: "Vec3 \<Rightarrow> real \<Rightarrow> Vec3" where
  "vdivs v d = V3 (e0 v / d) (e1 v / d) (e2 v / d)"

text \<open>
  \<open>Vec3::operator/=(float)\<close> multiplies by the reciprocal. For the divisor zero the
  reciprocal of the program is infinite; HOL's total division gives zero there.
\<close>

definition vdiv_assign :: "Vec3 \<Rightarrow> real \<Rightarrow> Vec3" where
  "vdiv_assign v d = (let k = 1 / d in V3 (e0 v * k) (e1 v * k) (e2 v * k))"

definition Dot :: "Vec3 \<Rightarrow> Vec3 \<Rightarrow> real" where
  "Dot l r = e0 l * e0 r + e1 l * e1 r + e2 l * e2 r"

definition Cross :: "Vec3 \<Rightarrow> Vec3 \<Rightarrow> Vec3" where
  "Cross l r = V3 (e1 l * e2 r - e2 l * e1 r)
                  (- (e0 l * e2 r - e2 l * e0 r))
                  (e0 l * e1 r - e1 l * e0 r)"

definition SquaredLength :: "Vec3 \<Rightarrow> real" where
  "SquaredLength v = e0 v * e0 v + e1 v * e1 v + e2 v * e2 v"

definition Length :: "Vec3 \<Rightarrow> real" where
  "Length v = sqrt (e0 v * e0 v + e1 v * e1 v + e2 v * e2 v)"

text \<open>
  \<open>Unit_Vector\<close> divides by the length. For the zero vector the program computes
  \<open>0 / 0\<close>; HOL's total division gives the zero vector there.
\<close>

definition Unit_Vector :: "Vec3 \<Rightarrow> Vec3" where
  "Unit_Vector v = vdivs v (Length v)"

record Ray =
  m_oOrigin :: Vec3
  m_oDirection :: Vec3

definition mkRay :: "Vec3 \<Rightarrow> Vec3 \<Rightarrow> Ray" where
  "mkRay a b = \<lparr>m_oOrigin = a, m_oDirection = b\<rparr>"

definition Origin :: "Ray \<Rightarrow> Vec3" where
  "Origin r = m_oOrigin r"

definition Direction :: "Ray \<Rightarrow> Vec3" where
  "Direction r = m_oDirection r"

definition PointAtParamenter :: "Ray \<Rightarrow> real \<Rightarrow> Vec3" where
  "PointAtParamenter r t = vadd (m_oOrigin r) (smul t (m_oDirection r))"

section \<open>Materials\<close>

text \<open>
  The three subclasses of \<open>Material\<close> with their data members. A \<open>Material*\<close> is
  modelled by the material it points to.
\<close>

datatype Material =
    Lambertian Vec3
  | Metal Vec3 real
  | Dielectric real

text \<open>The constructor \<open>Metal::Metal(albedo, fuzz)\<close>.\<close>

definition Metal_ctor :: "Vec3 \<Rightarrow> real \<Rightarrow> Material" where
  "Metal_ctor a_oVecIn a_fFuzz =
     (if a_fFuzz < 1 then Metal a_oVecIn a_fFuzz else Metal a_oVecIn 1)"

fun m_fFuzz :: "Material \<Rightarrow> real" where
  "m_fFuzz (Metal a f) = f"
| "m_fFuzz _ = 0"

record HitRecord =
  m_fT :: real
  m_oPoint :: Vec3
  m_oNormal :: Vec3
  m_oMaterial :: Material

section \<open>Geometry\<close>

record Sphere =
  m_oCenter :: Vec3
  m_fRadius :: real
  m_oSphereMaterial :: Material

text \<open>
  The five quantities \<open>Sphere::Hit\<close> computes before it branches.
\<close>

definition sphere_oc :: "Sphere \<Rightarrow> Ray \<Rightarrow> Vec3" where
  "sphere_oc s r = vsub (Origin r) (m_oCenter s)"

definition sphere_a :: "Ray \<Rightarrow> real" where
  "sphere_a r = Dot (Direction r) (Direction r)"

definition sphere_b :: "Sphere \<Rightarrow> Ray \<Rightarrow> real" where
  "sphere_b s r = Dot (sphere_oc s r) (Direction r)"

definition sphere_c :: "Sphere \<Rightarrow> Ray \<Rightarrow> real" where
  "sphere_c s r = Dot (sphere_oc s r) (sphere_oc s r) - m_fRadius s * m_fRadius s"

definition sphere_desc :: "Sphere \<Rightarrow> Ray \<Rightarrow> real" where
  "sphere_desc s r = sphere_b s r * sphere_b s r - sphere_a r * sphere_c s r"

text \<open>The four assignments to the hit record on either successful branch.\<close>

definition sphere_record :: "Sphere \<Rightarrow> Ray \<Rightarrow> real \<Rightarrow> HitRecord" where
  "sphere_record s r t =
     (let p = PointAtParamenter r t
      in \<lparr>m_fT = t, m_oPoint = p,
          m_oNormal = vdivs (vsub p (m_oCenter s)) (m_fRadius s),
          m_oMaterial = m_oSphereMaterial s\<rparr>)"

text \<open>
  \<open>Sphere::Hit\<close>. The record is an out-parameter: the function returns the flag together
  with the caller's record as it stands afterwards.
\<close>

definition Sphere_Hit :: "Sphere \<Rightarrow> Ray \<Rightarrow> real \<Rightarrow> real \<Rightarrow> HitRecord \<Rightarrow> bool \<times> HitRecord" where
  "Sphere_Hit s r a_fTMin a_fTMax a_oRecord =
     (let a = sphere_a r; b = sphere_b s r; desc = sphere_desc s r
      in if desc > 0 then
           (let temp = (- b - sqrt desc) / a
            in if temp < a_fTMax \<and> temp > a_fTMin then (True, sphere_record s r temp)
               else (let temp2 = (- b + sqrt desc) / a
                     in if temp2 < a_fTMax \<and> temp2 > a_fTMin
                        then (True, sphere_record s r temp2)
                        else (False, a_oRecord)))
         else (False, a_oRecord))"

text \<open>
  \<open>Hittable\<close> has two implementations here, \<open>Sphere\<close> and \<open>HittableList\<close>; a list holds
  pointers to hittables, so lists nest.
\<close>

datatype Hittable =
    SphereH Sphere
  | HittableList "Hittable list"

text \<open>
  \<open>HittableList::Hit\<close>: the loop state is the local \<open>_tempRecord\<close>, the flag
  \<open>_hittedAnything\<close>, \<open>_closestSoFar\<close> and the caller's record. \<open>_tempRecord\<close> is
  declared without an initial value; the parameter \<open>junk\<close> stands for whatever it holds.
\<close>

fun Hit :: "HitRecord \<Rightarrow> Hittable \<Rightarrow> Ray \<Rightarrow> real \<Rightarrow> real \<Rightarrow> HitRecord \<Rightarrow> bool \<times> HitRecord"
and Hit_loop :: "HitRecord \<Rightarrow> Hittable list \<Rightarrow> Ray \<Rightarrow> real \<Rightarrow>
                 HitRecord \<Rightarrow> bool \<Rightarrow> real \<Rightarrow> HitRecord \<Rightarrow> bool \<times> HitRecord" where
  "Hit junk (SphereH s) r a_fTMin a_fTMax a_oRecord = Sphere_Hit s r a_fTMin a_fTMax a_oRecord"
| "Hit junk (HittableList hs) r a_fTMin a_fTMax a_oRecord =
     Hit_loop junk hs r a_fTMin junk False a_fTMax a_oRecord"
| "Hit_loop junk [] r a_fTMin tempRecord hittedAnything closestSoFar a_oRecord =
     (hittedAnything, a_oRecord)"
| "Hit_loop junk (h # hs) r a_fTMin tempRecord hittedAnything closestSoFar a_oRecord =
     (case Hit junk h r a_fTMin closestSoFar tempRecord of
        (True, tempRecord') \<Rightarrow>
           Hit_loop junk hs r a_fTMin tempRecord' True (m_fT tempRecord') tempRecord'
      | (False, tempRecord') \<Rightarrow>
           Hit_loop junk hs r a_fTMin tempRecord' hittedAnything closestSoFar a_oRecord)"

section \<open>The closest hit of a list, as a specification\<close>

text \<open>
  What each member reports on the whole interval, and the records of those that hit.
\<close>

definition member_hit :: "HitRecord \<Rightarrow> Ray \<Rightarrow> real \<Rightarrow> real \<Rightarrow> Hittable \<Rightarrow> bool \<times> HitRecord" where
  "member_hit junk r tMin tMax h = Hit junk h r tMin tMax junk"

definition member_hits :: "HitRecord \<Rightarrow> Ray \<Rightarrow> real \<Rightarrow> real \<Rightarrow> Hittable list \<Rightarrow> HitRecord list" where
  "member_hits junk r tMin tMax hs =
     map snd (filter fst (map (member_hit junk r tMin tMax) hs))"

text \<open>
  The record with the smallest parameter below a bound, the earliest one among equals:
  a later record replaces the current one only when its parameter is strictly smaller.
\<close>

fun pick :: "real \<Rightarrow> HitRecord list \<Rightarrow> HitRecord option" where
  "pick c [] = None"
| "pick c (x # xs) =
     (if m_fT x < c then (case pick (m_fT x) xs of None \<Rightarrow> Some x | Some y \<Rightarrow> Some y)
      else pick c xs)"

text \<open>
  A hittable narrows when a query with a smaller upper bound answers with the hit of
  the whole interval if that lies below the bound, and with no hit otherwise.
\<close>

definition narrows :: "HitRecord \<Rightarrow> Ray \<Rightarrow> real \<Rightarrow> real \<Rightarrow> Hittable \<Rightarrow> bool" where
  "narrows junk r tMin tMax h \<longleftrightarrow>
     (\<forall>c x. c \<le> tMax \<longrightarrow>
        Hit junk h r tMin c x =
          (if fst (member_hit junk r tMin tMax h) \<and> m_fT (snd (member_hit junk r tMin tMax h)) < c
           then (True, snd (member_hit junk r tMin tMax h)) else (False, x)))"

section \<open>Random numbers\<close>

text \<open>
  \<open>std::rand()\<close> reads and advances a hidden generator. The model passes the values the
  generator is still going to return as a list: a call takes the head, and a
  computation that asks for more values than the list holds has no result (\<open>None\<close>).
  The program always uses the quotient \<open>std::rand() / (RAND_MAX + 1.0)\<close>, which lies in
  \<open>[0, 1)\<close>; \<open>RAND_MAX\<close> is the value of the GNU C library.
\<close>

type_synonym rand_state = "nat list"

definition RAND_MAX :: nat where
  "RAND_MAX = 2147483647"

definition rand_value :: "nat \<Rightarrow> real" where
  "rand_value n = real (n mod (RAND_MAX + 1)) / (real RAND_MAX + 1)"

fun rand_unit :: "rand_state \<Rightarrow> (real \<times> rand_state) option" where
  "rand_unit [] = None"
| "rand_unit (n # rs) = Some (rand_value n, rs)"

text \<open>
  \<open>RandomInUnitSphere\<close>: the rejection loop draws three values per round (read here
  from left to right) and repeats while the point lies outside the open unit ball.
\<close>

fun RandomInUnitSphere :: "rand_state \<Rightarrow> (Vec3 \<times> rand_state) option" where
  "RandomInUnitSphere (n1 # n2 # n3 # rs) =
     (let p = vsub (smul 2 (V3 (rand_value n1) (rand_value n2) (rand_value n3))) (V3 1 1 1)
      in if SquaredLength p \<ge> 1 then RandomInUnitSphere rs else Some (p, rs))"
| "RandomInUnitSphere _ = None"

section \<open>Scattering\<close>

definition Schlick :: "real \<Rightarrow> real \<Rightarrow> real" where
  "Schlick a_dCosine a_dRefIdx =
     (let r0 = (1 - a_dRefIdx) / (1 + a_dRefIdx);
          r0' = r0 * r0
      in r0' + (1 - r0') * (1 - a_dCosine) ^ 5)"

text \<open>
  \<open>Refract\<close> writes its out-parameter only when it returns true; the last argument is
  the value the caller's variable holds before the call.
\<close>

definition Refract :: "Vec3 \<Rightarrow> Vec3 \<Rightarrow> real \<Rightarrow> Vec3 \<Rightarrow> bool \<times> Vec3" where
  "Refract a_oVecIn a_oNormal a_fNiOverNt a_oRefracted =
     (let uv = Unit_Vector a_oVecIn;
          dt = Dot uv a_oNormal;
          disc = 1 - a_fNiOverNt * a_fNiOverNt * (1 - dt * dt)
      in if disc > 0
         then (True, vsub (smul a_fNiOverNt (vsub uv (vmuls a_oNormal dt)))
                          (vmuls a_oNormal (sqrt disc)))
         else (False, a_oRefracted))"

definition Reflect :: "Vec3 \<Rightarrow> Vec3 \<Rightarrow> Vec3" where
  "Reflect a_oVecIn a_oNormal = vsub a_oVecIn (smul (2 * Dot a_oVecIn a_oNormal) a_oNormal)"

text \<open>
  \<open>Material::Scatter\<close> for the three materials. The result is the returned flag, the
  attenuation, the scattered ray and the remaining random values. In the dielectric the
  local \<open>_refracted\<close> has no initial value; \<open>junk_v\<close> stands for its content.
\<close>

fun Scatter :: "Vec3 \<Rightarrow> Material \<Rightarrow> rand_state \<Rightarrow> Ray \<Rightarrow> HitRecord \<Rightarrow>
                (bool \<times> Vec3 \<times> Ray \<times> rand_state) option" where
  "Scatter junk_v (Metal m_oAlbedo fuzz) rs a_oRayIn a_oRecord =
     (let reflected = Reflect (Unit_Vector (Direction a_oRayIn)) (m_oNormal a_oRecord)
      in case RandomInUnitSphere rs of
           None \<Rightarrow> None
         | Some (p, rs') \<Rightarrow>
             (let scatterRay = mkRay (m_oPoint a_oRecord) (vadd reflected (smul fuzz p))
              in Some (Dot (Direction scatterRay) (m_oNormal a_oRecord) > 0,
                       m_oAlbedo, scatterRay, rs')))"
| "Scatter junk_v (Lambertian m_oAlbedo) rs a_oRayIn a_oRecord =
     (case RandomInUnitSphere rs of
        None \<Rightarrow> None
      | Some (p, rs') \<Rightarrow>
          (let target = vadd (vadd (m_oPoint a_oRecord) (m_oNormal a_oRecord)) p
           in Some (True, m_oAlbedo,
                    mkRay (m_oPoint a_oRecord) (vsub target (m_oPoint a_oRecord)), rs')))"
| "Scatter junk_v (Dielectric m_fRefIdx) rs a_oRayIn a_oRecord =
     (let dir = Direction a_oRayIn;
          n = m_oNormal a_oRecord;
          reflected = Reflect dir n;
          attenuation = V3 1 1 1;
          (outwardNormal, niOverNt, cosine) =
             (if Dot dir n > 0
              then (vneg n, m_fRefIdx,
                    (let c = Dot dir n / Length dir
                     in sqrt (1 - m_fRefIdx * m_fRefIdx * (1 - c * c))))
              else (n, 1 / m_fRefIdx, - Dot dir n / Length dir));
          (ok, refracted) = Refract dir outwardNormal niOverNt junk_v;
          reflectProb = (if ok then Schlick cosine m_fRefIdx else 1)
      in case rand_unit rs of
           None \<Rightarrow> None
         | Some (d, rs') \<Rightarrow>
             if d < reflectProb
             then Some (True, attenuation, mkRay (m_oPoint a_oRecord) reflected, rs')
             else Some (True, attenuation, mkRay (m_oPoint a_oRecord) refracted, rs'))"

section \<open>The path integrators\<close>

definition FLT_MAX :: real where
  "FLT_MAX = 340282346638528859811704183484516925440"

text \<open>
  \<open>Color\<close>, the recursive integrator of the classic renderer. \<open>junk\<close> and \<open>junk_v\<close>
  stand for the contents of locals declared without a value.
\<close>

function Color :: "HitRecord \<Rightarrow> Vec3 \<Rightarrow> rand_state \<Rightarrow> Ray \<Rightarrow> Hittable \<Rightarrow> int \<Rightarrow>
                   (Vec3 \<times> rand_state) option" where
  "Color junk junk_v rs a_oRay a_oWorld a_iDepth =
     (case Hit junk a_oWorld a_oRay (1/1000) FLT_MAX junk of
        (True, record) \<Rightarrow>
          (if a_iDepth < 50
           then (case Scatter junk_v (m_oMaterial record) rs a_oRay record of
                   None \<Rightarrow> None
                 | Some (True, attenuation, scatter, rs') \<Rightarrow>
                     (case Color junk junk_v rs' scatter a_oWorld (a_iDepth + 1) of
                        None \<Rightarrow> None
                      | Some (c, rs'') \<Rightarrow> Some (vmul attenuation c, rs''))
                 | Some (False, attenuation, scatter, rs') \<Rightarrow> Some (V3 0 0 0, rs'))
           else Some (V3 0 0 0, rs))
      | (False, record) \<Rightarrow>
          (let unitDir = Unit_Vector (Direction a_oRay);
               t = (1/2) * (GetY unitDir + 1)
           in Some (vadd (smul (1 - t) (V3 1 1 1)) (smul t (V3 (1/2) (7/10) 1)), rs)))"
  by pat_completeness auto
termination
  by (relation "measure (\<lambda>(junk, junk_v, rs, r, w, d). nat (50 - d))") auto

declare Color.simps [simp del]

text \<open>
  \<open>FastRandom::random()\<close> is a thread-local generator: a Mersenne twister in
  \<open>modern_vec3.h\<close>, a linear congruential generator in \<open>main_interactive.cpp\<close>. The
  integrator and the tile renderers take the generator as a step function \<open>random\<close> on a
  state \<open>'g\<close>; the function returns \<open>None\<close> when the supplied values are used up.
\<close>

type_synonym 'g generator = "'g \<Rightarrow> (real \<times> 'g) option"

fun random3 :: "'g generator \<Rightarrow> 'g \<Rightarrow> (Vec3 \<times> 'g) option" where
  "random3 random g =
     (case random g of None \<Rightarrow> None
      | Some (d1, g1) \<Rightarrow>
         (case random g1 of None \<Rightarrow> None
          | Some (d2, g2) \<Rightarrow>
             (case random g2 of None \<Rightarrow> None
              | Some (d3, g3) \<Rightarrow> Some (V3 d1 d2 d3, g3))))"

text \<open>The values of a Mersenne twister come from a list, like those of \<open>std::rand\<close>.\<close>

fun list_random :: "real list generator" where
  "list_random [] = None"
| "list_random (d # ds) = Some (d, ds)"

text \<open>
  The generator of \<open>main_interactive.cpp\<close>:
  \<open>state = state * 1664525u + 1013904223u; return (state >> 8) * (1.0f / 16777216.0f)\<close>.
\<close>

definition lcg_random :: "32 word generator" where
  "lcg_random state =
     (let state' = state * 1664525 + 1013904223
      in Some (real (unat (drop_bit 8 state')) * (1 / 16777216), state'))"

text \<open>\<open>ColorOptimized\<close>, the integrator of the tiled renderers.\<close>

function ColorOptimized :: "'g generator \<Rightarrow> HitRecord \<Rightarrow> 'g \<Rightarrow> Ray \<Rightarrow> Hittable \<Rightarrow> int \<Rightarrow> int \<Rightarrow>
                            (Vec3 \<times> 'g) option" where
  "ColorOptimized random junk g ray world depth max_depth =
     (if depth \<ge> max_depth then Some (V3 0 0 0, g)
      else (case Hit junk world ray (1/1000) FLT_MAX junk of
              (True, rec) \<Rightarrow>
                (case random3 random g of
                   None \<Rightarrow> None
                 | Some (v, g') \<Rightarrow>
                     (let target = vadd (vadd (m_oPoint rec) (m_oNormal rec)) v
                      in case ColorOptimized random junk g'
                                (mkRay (m_oPoint rec) (vsub target (m_oPoint rec)))
                                world (depth + 1) max_depth of
                           None \<Rightarrow> None
                         | Some (c, g'') \<Rightarrow> Some (smul (1/2) c, g'')))
            | (False, rec) \<Rightarrow>
                (let unit_direction = Unit_Vector (Direction ray);
                     t = (1/2) * (GetY unit_direction + 1)
                 in Some (vadd (smul (1 - t) (V3 1 1 1)) (smul t (V3 (1/2) (7/10) 1)), g))))"
  by pat_completeness auto
termination
  by (relation "measure (\<lambda>(random, junk, g, r, w, d, m). nat (m - d))") auto

declare ColorOptimized.simps [simp del]

text \<open>
  The sky gradient in the words of the specification: the blend
  \<open>lerp(white, skyBlue, 0.5 * (unitDirection.y + 1))\<close>.
\<close>

definition lerp :: "Vec3 \<Rightarrow> Vec3 \<Rightarrow> real \<Rightarrow> Vec3" where
  "lerp a b t = vadd (smul (1 - t) a) (smul t b)"

definition sky_gradient :: "Ray \<Rightarrow> Vec3" where
  "sky_gradient ray =
     lerp (V3 1 1 1) (V3 (1/2) (7/10) 1) ((1/2) * (GetY (Unit_Vector (Direction ray)) + 1))"

section \<open>Tiles\<close>

text \<open>
  The tile scheduler computes with C++ \<open>int\<close>, a 32-bit signed integer. Signed overflow
  is undefined behaviour; the checked operations below return \<open>None\<close> for it, and
  so does every computation that runs into it.
\<close>

definition INT_MAX :: int where
  "INT_MAX = 2147483647"

definition INT_MIN :: int where
  "INT_MIN = - 2147483648"

definition int_add :: "int \<Rightarrow> int \<Rightarrow> int option" where
  "int_add a b = (if INT_MIN \<le> a + b \<and> a + b \<le> INT_MAX then Some (a + b) else None)"

definition int_sub :: "int \<Rightarrow> int \<Rightarrow> int option" where
  "int_sub a b = (if INT_MIN \<le> a - b \<and> a - b \<le> INT_MAX then Some (a - b) else None)"

record RenderTile =
  x_start :: int
  y_start :: int
  width :: int
  height :: int
  samples_per_pixel :: int

definition mkTile :: "int \<Rightarrow> int \<Rightarrow> int \<Rightarrow> int \<Rightarrow> int \<Rightarrow> RenderTile" where
  "mkTile x y w h samples =
     \<lparr>x_start = x, y_start = y, width = w, height = h, samples_per_pixel = samples\<rparr>"

text \<open>
  \<open>create_tiles\<close>: the inner loop over \<open>x\<close> and the outer loop over \<open>y\<close>, each appending
  to the vector \<open>tiles\<close>. A loop that does not end (a tile size that is not positive)
  has no result either.
\<close>

partial_function (option) create_tiles_x ::
  "int \<Rightarrow> int \<Rightarrow> int \<Rightarrow> int \<Rightarrow> int \<Rightarrow> int \<Rightarrow> RenderTile list \<Rightarrow> RenderTile list option" where
  "create_tiles_x image_width image_height samples tile_size y x tiles =
     (if x < image_width then
        Option.bind (int_sub image_width x) (\<lambda>dw.
        Option.bind (int_sub image_height y) (\<lambda>dh.
          let tile_width = min tile_size dw;
              tile_height = min tile_size dh;
              tiles' = tiles @ [mkTile x y tile_width tile_height samples]
          in Option.bind (int_add x tile_size) (\<lambda>x'.
               create_tiles_x image_width image_height samples tile_size y x' tiles')))
      else Some tiles)"

partial_function (option) create_tiles_y ::
  "int \<Rightarrow> int \<Rightarrow> int \<Rightarrow> int \<Rightarrow> int \<Rightarrow> RenderTile list \<Rightarrow> RenderTile list option" where
  "create_tiles_y image_width image_height samples tile_size y tiles =
     (if y < image_height then
        Option.bind (create_tiles_x image_width image_height samples tile_size y 0 tiles)
          (\<lambda>tiles'.
        Option.bind (int_add y tile_size) (\<lambda>y'.
          create_tiles_y image_width image_height samples tile_size y' tiles'))
      else Some tiles)"

definition create_tiles :: "int \<Rightarrow> int \<Rightarrow> int \<Rightarrow> int \<Rightarrow> RenderTile list option" where
  "create_tiles image_width image_height samples tile_size =
     create_tiles_y image_width image_height samples tile_size 0 []"

text \<open>A pixel lies in a tile; the image size rounded up to whole tiles.\<close>

definition in_tile :: "RenderTile \<Rightarrow> int \<times> int \<Rightarrow> bool" where
  "in_tile t p \<longleftrightarrow>
     x_start t \<le> fst p \<and> fst p < x_start t + width t \<and>
     y_start t \<le> snd p \<and> snd p < y_start t + height t"

definition tiles_across :: "int \<Rightarrow> int \<Rightarrow> nat" where
  "tiles_across extent tile_size =
     (if extent \<le> 0 then 0 else nat ((extent - 1) div tile_size + 1))"

definition rounded_up :: "int \<Rightarrow> int \<Rightarrow> int" where
  "rounded_up extent tile_size = int (tiles_across extent tile_size) * tile_size"

text \<open>
  The tile in column \<open>i\<close> and row \<open>j\<close> of the grid, clipped to the image, and the
  grid in the order in which the loops append it.
\<close>

definition tile_at :: "int \<Rightarrow> int \<Rightarrow> int \<Rightarrow> int \<Rightarrow> nat \<Rightarrow> nat \<Rightarrow> RenderTile" where
  "tile_at W H S T i j =
     mkTile (int i * T) (int j * T) (min T (W - int i * T)) (min T (H - int j * T)) S"

definition grid :: "int \<Rightarrow> int \<Rightarrow> int \<Rightarrow> int \<Rightarrow> RenderTile list" where
  "grid W H S T =
     concat (map (\<lambda>j. map (\<lambda>i. tile_at W H S T i j) [0 ..< tiles_across W T])
                 [0 ..< tiles_across H T])"

section \<open>The camera\<close>

record Camera =
  cam_oOrigin :: Vec3
  cam_oLowerLeftCorner :: Vec3
  cam_oHorizontal :: Vec3
  cam_oVertical :: Vec3
  cam_oU :: Vec3
  cam_oV :: Vec3
  cam_oW :: Vec3
  cam_fLensRadius :: real

text \<open>\<open>Camera::RandomUnitInDisk\<close> draws two values per round.\<close>

fun RandomUnitInDisk :: "rand_state \<Rightarrow> (Vec3 \<times> rand_state) option" where
  "RandomUnitInDisk (n1 # n2 # rs) =
     (let p = vsub (smul 2 (V3 (rand_value n1) (rand_value n2) 0)) (V3 1 1 0)
      in if Dot p p \<ge> 1 then RandomUnitInDisk rs else Some (p, rs))"
| "RandomUnitInDisk _ = None"

definition GetRay :: "Camera \<Rightarrow> real \<Rightarrow> real \<Rightarrow> rand_state \<Rightarrow> (Ray \<times> rand_state) option" where
  "GetRay cam a_fU a_fV rs =
     (case RandomUnitInDisk rs of
        None \<Rightarrow> None
      | Some (p, rs') \<Rightarrow>
          (let rd = smul (cam_fLensRadius cam) p;
               offset = vadd (vmuls (cam_oU cam) (e0 rd)) (vmuls (cam_oV cam) (e1 rd))
           in Some (mkRay (vadd (cam_oOrigin cam) offset)
                      (vsub (vsub (vadd (vadd (cam_oLowerLeftCorner cam)
                                              (smul a_fU (cam_oHorizontal cam)))
                                        (smul a_fV (cam_oVertical cam)))
                                  (cam_oOrigin cam))
                            offset),
                    rs')))"

section \<open>Rendering a tile\<close>

text \<open>
  What a worker reads and writes while it renders a tile: the shared pixel buffer, the
  state of its \<open>FastRandom\<close> generator, the state of \<open>std::rand\<close>, the counter
  \<open>rays_traced\<close> of its statistics, the shared counter \<open>completed_pixels\<close>, the number of
  reads of the control flags it has made, and the calls of \<open>UpdatePixel\<close> it has sent to
  the display. The timer of the statistics and the progress line printed to the console
  have no part in what is stored and are left out.
\<close>

record 'g worker =
  w_pixels :: "Vec3 list"
  w_fast :: 'g
  w_rand :: rand_state
  w_rays_traced :: nat
  w_completed_pixels :: nat
  w_clock :: nat
  w_display :: "(int \<times> int \<times> Vec3) list"

text \<open>The arguments that stay fixed while a tile is rendered.\<close>

record 'g scene =
  sc_random :: "'g generator"
  sc_junk :: HitRecord
  sc_camera :: Camera
  sc_world :: Hittable
  sc_nx :: int
  sc_ny :: int

text \<open>
  The sample loop of a pixel in \<open>render_tile_progressive\<close>: jitter, camera ray,
  integrator, accumulation.
\<close>

function sample_loop :: "'g scene \<Rightarrow> int \<Rightarrow> int \<Rightarrow> int \<Rightarrow> int \<Rightarrow> int \<Rightarrow> Vec3 \<Rightarrow> 'g worker \<Rightarrow>
                         (Vec3 \<times> 'g worker) option" where
  "sample_loop sc max_depth i j samples s col w =
     (if s < samples then
        (case sc_random sc (w_fast w) of
           None \<Rightarrow> None
         | Some (d1, g1) \<Rightarrow>
            (case sc_random sc g1 of
               None \<Rightarrow> None
             | Some (d2, g2) \<Rightarrow>
                (let u = (real_of_int i + d1) / real_of_int (sc_nx sc);
                     v = (real_of_int j + d2) / real_of_int (sc_ny sc)
                 in case GetRay (sc_camera sc) u v (w_rand w) of
                      None \<Rightarrow> None
                    | Some (ray, rs') \<Rightarrow>
                       (case ColorOptimized (sc_random sc) (sc_junk sc) g2 ray (sc_world sc)
                               0 max_depth of
                          None \<Rightarrow> None
                        | Some (c, g3) \<Rightarrow>
                            sample_loop sc max_depth i j samples (s + 1) (vadd col c)
                              (w\<lparr>w_fast := g3, w_rand := rs',
                                 w_rays_traced := w_rays_traced w + 1\<rparr>)))))
      else Some (col, w))"
  by pat_completeness auto
termination
  by (relation "measure (\<lambda>(sc, m, i, j, samples, s, col, w). nat (samples - s))") auto

declare sample_loop.simps [simp del]

text \<open>
  The end of a pixel: \<open>col /= float(samples)\<close>, the square root of each component, and
  the store \<open>pixels[j * nx + i] = col\<close>. \<open>std::vector::operator[]\<close> does not check the
  index; a store outside the buffer is undefined behaviour and has no result.
\<close>

definition gamma_correct :: "Vec3 \<Rightarrow> Vec3" where
  "gamma_correct col = V3 (sqrt (e0 col)) (sqrt (e1 col)) (sqrt (e2 col))"

definition pixel_value :: "Vec3 \<Rightarrow> int \<Rightarrow> Vec3" where
  "pixel_value col samples = gamma_correct (vdiv_assign col (real_of_int samples))"

definition pixel_index :: "int \<Rightarrow> int \<Rightarrow> int \<Rightarrow> int" where
  "pixel_index nx i j = j * nx + i"

definition store_pixel :: "int \<Rightarrow> int \<Rightarrow> int \<Rightarrow> Vec3 \<Rightarrow> Vec3 list \<Rightarrow> Vec3 list option" where
  "store_pixel nx i j col pixels =
     (let idx = pixel_index nx i j
      in if 0 \<le> idx \<and> idx < int (length pixels) then Some (pixels[nat idx := col]) else None)"

subsection \<open>\<open>render_tile_progressive\<close>\<close>

text \<open>
  The pause and stop flags are atomics that the controller thread writes. The worker
  sees them through its reads only: \<open>paused_at n\<close> and \<open>stop_at n\<close> are the values that
  the worker's read number \<open>n\<close> returns, and every read advances the clock.
\<close>

record control =
  paused_at :: "nat \<Rightarrow> bool"
  stop_at :: "nat \<Rightarrow> bool"

text \<open>
  \<open>while (renderer->IsPaused() && !renderer->ShouldStop()) sleep\<close>: the result is the
  clock after the loop; a pause that never ends has no result.
\<close>

partial_function (option) wait_while_paused :: "control \<Rightarrow> nat \<Rightarrow> nat option" where
  "wait_while_paused ctl clock =
     (if paused_at ctl clock
      then (if \<not> stop_at ctl (clock + 1) then wait_while_paused ctl (clock + 2)
            else Some (clock + 2))
      else Some (clock + 1))"

text \<open>A loop body either falls through to the next round or executes \<open>return\<close>.\<close>

datatype 'a flow = Continue 'a | Returned 'a

definition pixel_progressive ::
  "control \<Rightarrow> 'g scene \<Rightarrow> RenderTile \<Rightarrow> int \<Rightarrow> int \<Rightarrow> 'g worker \<Rightarrow> 'g worker flow option" where
  "pixel_progressive ctl sc tile i j w =
     (case wait_while_paused ctl (w_clock w) of
        None \<Rightarrow> None
      | Some clock1 \<Rightarrow>
          if stop_at ctl clock1 then Some (Returned (w\<lparr>w_clock := clock1 + 1\<rparr>))
          else
            (case sample_loop sc 8 i j (samples_per_pixel tile) 0 (V3 0 0 0)
                    (w\<lparr>w_clock := clock1 + 1\<rparr>) of
               None \<Rightarrow> None
             | Some (col, w1) \<Rightarrow>
                 (let col' = pixel_value col (samples_per_pixel tile)
                  in case store_pixel (sc_nx sc) i j col' (w_pixels w1) of
                       None \<Rightarrow> None
                     | Some pixels' \<Rightarrow>
                         Some (Continue (w1\<lparr>w_pixels := pixels',
                                  w_display := w_display w1 @ [(i, j, col')]\<rparr>)))))"

function row_progressive ::
  "control \<Rightarrow> 'g scene \<Rightarrow> RenderTile \<Rightarrow> int \<Rightarrow> int \<Rightarrow> 'g worker \<Rightarrow> 'g worker flow option" where
  "row_progressive ctl sc tile j i w =
     (if i < x_start tile + width tile then
        (case pixel_progressive ctl sc tile i j w of
           None \<Rightarrow> None
         | Some (Returned w') \<Rightarrow> Some (Returned w')
         | Some (Continue w') \<Rightarrow> row_progressive ctl sc tile j (i + 1) w')
      else Some (Continue w))"
  by pat_completeness auto
termination
  by (relation "measure (\<lambda>(ctl, sc, tile, j, i, w). nat (x_start tile + width tile - i))") auto

declare row_progressive.simps [simp del]

function rows_progressive ::
  "control \<Rightarrow> 'g scene \<Rightarrow> RenderTile \<Rightarrow> int \<Rightarrow> 'g worker \<Rightarrow> 'g worker flow option" where
  "rows_progressive ctl sc tile j w =
     (if j < y_start tile + height tile then
        (case row_progressive ctl sc tile j (x_start tile) w of
           None \<Rightarrow> None
         | Some (Returned w') \<Rightarrow> Some (Returned w')
         | Some (Continue w') \<Rightarrow> rows_progressive ctl sc tile (j + 1) w')
      else Some (Continue w))"
  by pat_completeness auto
termination
  by (relation "measure (\<lambda>(ctl, sc, tile, j, w). nat (y_start tile + height tile - j))") auto

declare rows_progressive.simps [simp del]

definition render_tile_progressive ::
  "control \<Rightarrow> 'g scene \<Rightarrow> RenderTile \<Rightarrow> 'g worker \<Rightarrow> 'g worker flow option" where
  "render_tile_progressive ctl sc tile w = rows_progressive ctl sc tile (y_start tile) w"

section \<open>Division by zero in the tiled renderer\<close>

text \<open>
  \<open>render_tile_optimized\<close> divides the accumulated colour by the sample count, and
  \<open>ColorOptimized\<close> divides a ray direction by its length; both divisors can be zero.
  For this renderer a \<open>float\<close> is therefore read as a real number, an infinity or NaN,
  with the operations of IEEE 754 on these values and exact results on the reals. The
  zero divisors of the program, a vector length and a sample count converted from
  \<open>int\<close>, are never the negative zero, so the sign of a zero is not kept.
\<close>

datatype ieee = Fin real | PInf | NInf | NaN


fun ieee_add :: "ieee \<Rightarrow> ieee \<Rightarrow> ieee" where
  "ieee_add (Fin a) (Fin b) = Fin (a + b)"
| "ieee_add NaN y = NaN"
| "ieee_add x NaN = NaN"
| "ieee_add PInf NInf = NaN"
| "ieee_add NInf PInf = NaN"
| "ieee_add PInf y = PInf"
| "ieee_add x PInf = PInf"
| "ieee_add NInf y = NInf"
| "ieee_add x NInf = NInf"


text \<open>An infinity with the sign of a real number that is not zero.\<close>

definition signed_inf :: "real \<Rightarrow> ieee" where
  "signed_inf a = (if 0 < a then PInf else NInf)"

fun ieee_mul :: "ieee \<Rightarrow> ieee \<Rightarrow> ieee" where
  "ieee_mul (Fin a) (Fin b) = Fin (a * b)"
| "ieee_mul NaN y = NaN"
| "ieee_mul x NaN = NaN"
| "ieee_mul (Fin a) PInf = (if a = 0 then NaN else signed_inf a)"
| "ieee_mul (Fin a) NInf = (if a = 0 then NaN else signed_inf (- a))"
| "ieee_mul PInf (Fin b) = (if b = 0 then NaN else signed_inf b)"
| "ieee_mul NInf (Fin b) = (if b = 0 then NaN else signed_inf (- b))"
| "ieee_mul PInf PInf = PInf"
| "ieee_mul NInf NInf = PInf"
| "ieee_mul PInf NInf = NInf"
| "ieee_mul NInf PInf = NInf"



text \<open>A \<open>Vec3\<close> of such values, and the operators of \<open>Vec3\<close> that the renderer uses.\<close>

record Vec3x =
  x0 :: ieee
  x1 :: ieee
  x2 :: ieee












subsection \<open>\<open>render_tile_optimized\<close>\<close>











section \<open>What a finished pixel holds\<close>












section \<open>What a stopped tile leaves behind\<close>

text \<open>
  The check of a pixel observed the stop flag and the worker returned there with the
  state \<open>w'\<close>; and a pixel was written earlier and still holds the value stored for it.
\<close>

definition stopped_at ::
  "control \<Rightarrow> 'g scene \<Rightarrow> RenderTile \<Rightarrow> int \<Rightarrow> int \<Rightarrow> 'g worker \<Rightarrow> bool" where
  "stopped_at ctl sc tile i j w' \<longleftrightarrow>
     (\<exists>ws c. pixel_progressive ctl sc tile i j ws = Some (Returned w') \<and>
             wait_while_paused ctl (w_clock ws) = Some c \<and> stop_at ctl c \<and>
             w' = ws\<lparr>w_clock := c + 1\<rparr>)"

definition written ::
  "control \<Rightarrow> 'g scene \<Rightarrow> RenderTile \<Rightarrow> int \<Rightarrow> int \<Rightarrow> 'g worker \<Rightarrow> bool" where
  "written ctl sc tile i j w' \<longleftrightarrow>
     (\<exists>wa wb. pixel_progressive ctl sc tile i j wa = Some (Continue wb) \<and>
              0 \<le> pixel_index (sc_nx sc) i j \<and>
              pixel_index (sc_nx sc) i j < int (length (w_pixels w')) \<and>
              w_pixels w' ! nat (pixel_index (sc_nx sc) i j) =
                w_pixels wb ! nat (pixel_index (sc_nx sc) i j))"

text \<open>
  The effect of the pixels \<open>lo \<le> i < hi\<close> of row \<open>j\<close> on the buffer: nothing else has
  changed, and each of them is written.
\<close>

definition row_done ::
  "control \<Rightarrow> 'g scene \<Rightarrow> RenderTile \<Rightarrow> int \<Rightarrow> int \<Rightarrow> int \<Rightarrow> 'g worker \<Rightarrow> 'g worker \<Rightarrow> bool" where
  "row_done ctl sc tile j lo hi w w' \<longleftrightarrow>
     length (w_pixels w') = length (w_pixels w) \<and>
     (\<forall>k. (\<forall>i'. lo \<le> i' \<and> i' < hi \<longrightarrow> k \<noteq> nat (pixel_index (sc_nx sc) i' j))
          \<longrightarrow> w_pixels w' ! k = w_pixels w ! k) \<and>
     (\<forall>i'. lo \<le> i' \<and> i' < hi \<longrightarrow> written ctl sc tile i' j w')"

text \<open>
  The pixels of the tile that come before the pixel \<open>(is, js)\<close> in the order of the
  loops, from row \<open>lo\<close> on: the whole rows \<open>lo \<le> j < js\<close> and the part of row \<open>js\<close>
  left of \<open>is\<close>.
\<close>

definition before_stop :: "RenderTile \<Rightarrow> int \<Rightarrow> int \<Rightarrow> int \<Rightarrow> int \<Rightarrow> int \<Rightarrow> bool" where
  "before_stop tile lo js is i j \<longleftrightarrow>
     x_start tile \<le> i \<and>
     ((lo \<le> j \<and> j < js \<and> i < x_start tile + width tile) \<or> (j = js \<and> i < is))"

definition region_done ::
  "control \<Rightarrow> 'g scene \<Rightarrow> RenderTile \<Rightarrow> int \<Rightarrow> int \<Rightarrow> int \<Rightarrow> 'g worker \<Rightarrow> 'g worker \<Rightarrow> bool" where
  "region_done ctl sc tile lo js is w w' \<longleftrightarrow>
     length (w_pixels w') = length (w_pixels w) \<and>
     (\<forall>k. (\<forall>i' j'. before_stop tile lo js is i' j' \<longrightarrow> k \<noteq> nat (pixel_index (sc_nx sc) i' j'))
          \<longrightarrow> w_pixels w' ! k = w_pixels w ! k) \<and>
     (\<forall>i' j'. before_stop tile lo js is i' j' \<longrightarrow> written ctl sc tile i' j' w')"

section \<open>The sphere test in single precision\<close>

text \<open>
  A second reading of \<open>Sphere::Hit\<close>, in which every \<open>float\<close> operation rounds its exact
  result to the nearest binary32 number, ties to the even significand (IEEE 754
  arithmetic, each operation on its own). \<open>round_f32\<close> is that rounding for results in
  the normal range: it keeps 24 significant bits. Overflow, subnormal numbers,
  infinities and NaN are not modelled; a division by zero, which gives an infinity or a
  NaN in the program, gives 0 here as in the rest of the theory.
\<close>

definition round_even :: "real \<Rightarrow> int" where
  "round_even y =
     (let n = \<lfloor>y\<rfloor>; d = y - of_int n
      in if d < 1/2 then n else if 1/2 < d then n + 1 else if even n then n else n + 1)"

definition round_f32 :: "real \<Rightarrow> real" where
  "round_f32 x =
     (if x = 0 then 0
      else (let u = 2 powr (of_int \<lfloor>log 2 \<bar>x\<bar>\<rfloor> - 23)
            in of_int (round_even (x / u)) * u))"

definition f_add :: "real \<Rightarrow> real \<Rightarrow> real" where
  "f_add x y = round_f32 (x + y)"

definition f_sub :: "real \<Rightarrow> real \<Rightarrow> real" where
  "f_sub x y = round_f32 (x - y)"

definition f_mul :: "real \<Rightarrow> real \<Rightarrow> real" where
  "f_mul x y = round_f32 (x * y)"

definition f_div :: "real \<Rightarrow> real \<Rightarrow> real" where
  "f_div x y = round_f32 (x / y)"

definition f_sqrt :: "real \<Rightarrow> real" where
  "f_sqrt x = round_f32 (sqrt x)"

definition vadd_f32 :: "Vec3 \<Rightarrow> Vec3 \<Rightarrow> Vec3" where
  "vadd_f32 l r = V3 (f_add (e0 l) (e0 r)) (f_add (e1 l) (e1 r)) (f_add (e2 l) (e2 r))"

definition vsub_f32 :: "Vec3 \<Rightarrow> Vec3 \<Rightarrow> Vec3" where
  "vsub_f32 l r = V3 (f_sub (e0 l) (e0 r)) (f_sub (e1 l) (e1 r)) (f_sub (e2 l) (e2 r))"

definition smul_f32 :: "real \<Rightarrow> Vec3 \<Rightarrow> Vec3" where
  "smul_f32 d v = V3 (f_mul d (e0 v)) (f_mul d (e1 v)) (f_mul d (e2 v))"

definition vdivs_f32 :: "Vec3 \<Rightarrow> real \<Rightarrow> Vec3" where
  "vdivs_f32 v d = V3 (f_div (e0 v) d) (f_div (e1 v) d) (f_div (e2 v) d)"

definition Dot_f32 :: "Vec3 \<Rightarrow> Vec3 \<Rightarrow> real" where
  "Dot_f32 l r =
     f_add (f_add (f_mul (e0 l) (e0 r)) (f_mul (e1 l) (e1 r))) (f_mul (e2 l) (e2 r))"

definition sphere_oc_f32 :: "Sphere \<Rightarrow> Ray \<Rightarrow> Vec3" where
  "sphere_oc_f32 s r = vsub_f32 (Origin r) (m_oCenter s)"

definition sphere_a_f32 :: "Ray \<Rightarrow> real" where
  "sphere_a_f32 r = Dot_f32 (Direction r) (Direction r)"

definition sphere_b_f32 :: "Sphere \<Rightarrow> Ray \<Rightarrow> real" where
  "sphere_b_f32 s r = Dot_f32 (sphere_oc_f32 s r) (Direction r)"

definition sphere_c_f32 :: "Sphere \<Rightarrow> Ray \<Rightarrow> real" where
  "sphere_c_f32 s r =
     f_sub (Dot_f32 (sphere_oc_f32 s r) (sphere_oc_f32 s r)) (f_mul (m_fRadius s) (m_fRadius s))"

definition sphere_desc_f32 :: "Sphere \<Rightarrow> Ray \<Rightarrow> real" where
  "sphere_desc_f32 s r =
     f_sub (f_mul (sphere_b_f32 s r) (sphere_b_f32 s r)) (f_mul (sphere_a_f32 r) (sphere_c_f32 s r))"

definition sphere_record_f32 :: "Sphere \<Rightarrow> Ray \<Rightarrow> real \<Rightarrow> HitRecord" where
  "sphere_record_f32 s r t =
     (let p = vadd_f32 (m_oOrigin r) (smul_f32 t (m_oDirection r))
      in \<lparr>m_fT = t, m_oPoint = p,
          m_oNormal = vdivs_f32 (vsub_f32 p (m_oCenter s)) (m_fRadius s),
          m_oMaterial = m_oSphereMaterial s\<rparr>)"

definition Sphere_Hit_f32 :: "Sphere \<Rightarrow> Ray \<Rightarrow> real \<Rightarrow> real \<Rightarrow> HitRecord \<Rightarrow> bool \<times> HitRecord" where
  "Sphere_Hit_f32 s r a_fTMin a_fTMax a_oRecord =
     (let a = sphere_a_f32 r; b = sphere_b_f32 s r; desc = sphere_desc_f32 s r
      in if desc > 0 then
           (let temp = f_div (f_sub (- b) (f_sqrt desc)) a
            in if temp < a_fTMax \<and> temp > a_fTMin then (True, sphere_record_f32 s r temp)
               else (let temp2 = f_div (f_add (- b) (f_sqrt desc)) a
                     in if temp2 < a_fTMax \<and> temp2 > a_fTMin
                        then (True, sphere_record_f32 s r temp2)
                        else (False, a_oRecord)))
         else (False, a_oRecord))"

section \<open>Example scene data\<close>

text \<open>
  A unit sphere two units down the negative z axis, a ray from the origin towards it, and
  a hit record with recognisable contents.
\<close>

definition s0 :: Sphere where
  "s0 = \<lparr>m_oCenter = V3 0 0 (-2), m_fRadius = 1,
          m_oSphereMaterial = Lambertian (V3 (1/2) (1/2) (1/2))\<rparr>"

definition r0 :: Ray where
  "r0 = mkRay (V3 0 0 0) (V3 0 0 (-1))"

definition rec0 :: HitRecord where
  "rec0 = \<lparr>m_fT = 0, m_oPoint = V3 0 0 0, m_oNormal = V3 0 0 0, m_oMaterial = Dielectric 1\<rparr>"

text \<open>
  A unit sphere around the origin, which touches \<open>s0\<close> at \<open>(0, 0, -1)\<close>, and a unit sphere
  further down the axis.
\<close>

definition s1 :: Sphere where
  "s1 = \<lparr>m_oCenter = V3 0 0 0, m_fRadius = 1,
          m_oSphereMaterial = Lambertian (V3 (1/2) (1/2) (1/2))\<rparr>"

definition s2 :: Sphere where
  "s2 = \<lparr>m_oCenter = V3 0 0 (-5), m_fRadius = 1,
          m_oSphereMaterial = Lambertian (V3 (1/2) (1/2) (1/2))\<rparr>"

text \<open>
  A pinhole camera at the origin looking down the negative z axis, an empty scene on a
  one-pixel image, the tile that is this pixel, and a worker whose generators hold the
  values for one sample through the centre of the pixel.
\<close>

definition cam0 :: Camera where
  "cam0 = \<lparr>cam_oOrigin = V3 0 0 0, cam_oLowerLeftCorner = V3 (-2) (-1) (-1),
            cam_oHorizontal = V3 4 0 0, cam_oVertical = V3 0 2 0,
            cam_oU = V3 1 0 0, cam_oV = V3 0 1 0, cam_oW = V3 0 0 1,
            cam_fLensRadius = 0\<rparr>"






text \<open>
  The same scene on an image two pixels wide, the tile that is the whole image, a
  worker with the random values for one sample, and a controller that never pauses and
  whose stop flag reads as set from the worker's read number 3 on, which is the check of
  the second pixel.
\<close>

definition sc1 :: "real list scene" where
  "sc1 = \<lparr>sc_random = list_random, sc_junk = rec0, sc_camera = cam0,
           sc_world = HittableList [], sc_nx = 2, sc_ny = 1\<rparr>"

definition tile1 :: RenderTile where
  "tile1 = mkTile 0 0 2 1 1"

definition worker1 :: "real list worker" where
  "worker1 = \<lparr>w_pixels = [V3 0 0 0, V3 0 0 0], w_fast = [1/2, 1/2],
          w_rand = [1073741824, 1073741824], w_rays_traced = 0,
          w_completed_pixels = 0, w_clock = 0, w_display = []\<rparr>"

definition ctl1 :: control where
  "ctl1 = \<lparr>paused_at = (\<lambda>n. False), stop_at = (\<lambda>n. 3 \<le> n)\<rparr>"

text \<open>The worker after it has written the first pixel and stopped at the second.\<close>

definition worker1_stopped :: "real list worker" where
  "worker1_stopped =
     \<lparr>w_pixels = [V3 (sqrt (3/4)) (sqrt (17/20)) 1, V3 0 0 0], w_fast = [], w_rand = [],
      w_rays_traced = 1, w_completed_pixels = 0, w_clock = 4,
      w_display = [(0, 0, V3 (sqrt (3/4)) (sqrt (17/20)) 1)]\<rparr>"

text \<open>
  A sphere of radius zero whose centre lies on the ray from the origin with direction
  \<open>(0, 2, 3)\<close>, at the parameter \<open>1137/512\<close>; all coordinates are binary32 numbers. And a
  ray whose direction is the zero vector.
\<close>

definition s_point :: Sphere where
  "s_point = \<lparr>m_oCenter = V3 0 (1137/256) (3411/512), m_fRadius = 0,
               m_oSphereMaterial = Lambertian (V3 (1/2) (1/2) (1/2))\<rparr>"

definition r_through :: Ray where
  "r_through = mkRay (V3 0 0 0) (V3 0 2 3)"

definition r_still :: Ray where
  "r_still = mkRay (V3 0 0 (-3)) (V3 0 0 0)"




section \<open>Ray--sphere intersection\<close>

lemma Dot_self_nonneg: "0 \<le> Dot v v"
  by (simp add: Dot_def)

lemma Dot_self_zero: "Dot v v = 0 \<Longrightarrow> e0 v = 0 \<and> e1 v = 0 \<and> e2 v = 0"
proof -
  assume h: "Dot v v = 0"
  have "e0 v * e0 v + (e1 v * e1 v + e2 v * e2 v) = 0" using h by (simp add: Dot_def)
  then have "e0 v * e0 v = 0 \<and> e1 v * e1 v + e2 v * e2 v = 0"
    by (simp add: add_nonneg_eq_0_iff)
  then have "e0 v * e0 v = 0 \<and> e1 v * e1 v = 0 \<and> e2 v * e2 v = 0"
    by (simp add: add_nonneg_eq_0_iff)
  then show ?thesis by simp
qed

text \<open>A positive discriminant needs a ray direction that is not the zero vector.\<close>

lemma desc_pos_a_pos: "0 < sphere_desc s r \<Longrightarrow> 0 < sphere_a r"
proof (rule ccontr)
  assume d: "0 < sphere_desc s r" and n: "\<not> 0 < sphere_a r"
  have "0 \<le> sphere_a r" by (simp add: sphere_a_def Dot_self_nonneg)
  with n have a0: "sphere_a r = 0" by simp
  then have z: "e0 (Direction r) = 0 \<and> e1 (Direction r) = 0 \<and> e2 (Direction r) = 0"
    unfolding sphere_a_def by (rule Dot_self_zero)
  then have "sphere_b s r = 0" by (simp add: sphere_b_def Dot_def)
  with a0 have "sphere_desc s r = 0" by (simp add: sphere_desc_def)
  with d show False by simp
qed

lemma roots_ordered:
  assumes "0 < sphere_desc s r"
  shows "(- sphere_b s r - sqrt (sphere_desc s r)) / sphere_a r
       < (- sphere_b s r + sqrt (sphere_desc s r)) / sphere_a r"
proof -
  have a: "0 < sphere_a r" using assms by (rule desc_pos_a_pos)
  have "0 < sqrt (sphere_desc s r)" using assms by simp
  then have "- sphere_b s r - sqrt (sphere_desc s r) < - sphere_b s r + sqrt (sphere_desc s r)"
    by simp
  then show ?thesis using a by (simp add: divide_strict_right_mono)
qed

lemma Sphere_Hit_unfold:
  "Sphere_Hit s r tMin tMax rec =
     (if sphere_desc s r \<le> 0 then (False, rec)
      else if tMin < (- sphere_b s r - sqrt (sphere_desc s r)) / sphere_a r \<and>
              (- sphere_b s r - sqrt (sphere_desc s r)) / sphere_a r < tMax
           then (True, sphere_record s r ((- sphere_b s r - sqrt (sphere_desc s r)) / sphere_a r))
      else if tMin < (- sphere_b s r + sqrt (sphere_desc s r)) / sphere_a r \<and>
              (- sphere_b s r + sqrt (sphere_desc s r)) / sphere_a r < tMax
           then (True, sphere_record s r ((- sphere_b s r + sqrt (sphere_desc s r)) / sphere_a r))
      else (False, rec))"
  by (auto simp: Sphere_Hit_def Let_def)

text \<open>
  Claim C1. For every ray, sphere and bounds \<open>tMin < tMax\<close>, \<open>Sphere::Hit\<close> works with
  \<open>oc = origin - center\<close>, \<open>a = dot(dir, dir)\<close>, \<open>b = dot(oc, dir)\<close>,
  \<open>c = dot(oc, oc) - radius\<^sup>2\<close> and \<open>disc = b\<^sup>2 - a c\<close>. With \<open>disc \<le> 0\<close> it reports no hit
  and leaves the record alone. Otherwise the root \<open>t1 = (-b - sqrt disc) / a\<close> is below
  \<open>t2 = (-b + sqrt disc) / a\<close>; \<open>t1\<close> is taken when it lies strictly inside
  \<open>(tMin, tMax)\<close>, else \<open>t2\<close> when that does, else there is no hit. The parameter
  reported is therefore the smallest root inside the interval.
\<close>

theorem Sphere_Hit_smallest_root:
  "tMin < tMax \<Longrightarrow>
   (let oc = vsub (Origin r) (m_oCenter s);
        a = Dot (Direction r) (Direction r);
        b = Dot oc (Direction r);
        c = Dot oc oc - m_fRadius s * m_fRadius s;
        disc = b * b - a * c;
        t1 = (- b - sqrt disc) / a;
        t2 = (- b + sqrt disc) / a;
        inside = (\<lambda>t. tMin < t \<and> t < tMax);
        res = Sphere_Hit s r tMin tMax rec
    in if disc \<le> 0 then res = (False, rec)
       else t1 < t2 \<and>
            res = (if inside t1 then (True, sphere_record s r t1)
                   else if inside t2 then (True, sphere_record s r t2)
                   else (False, rec)) \<and>
            (fst res \<longleftrightarrow> inside t1 \<or> inside t2) \<and>
            (fst res \<longrightarrow> inside (m_fT (snd res)) \<and>
                (\<forall>t \<in> {t1, t2}. inside t \<longrightarrow> m_fT (snd res) \<le> t)))"
  using roots_ordered [of s r]
  by (auto simp: Let_def Sphere_Hit_unfold sphere_desc_def sphere_a_def sphere_b_def
        sphere_c_def sphere_oc_def sphere_record_def)

theorem Sphere_Hit_smallest_root_witness:
  "(0::real) < 10 \<and> Sphere_Hit s0 r0 0 10 rec0 = (True, sphere_record s0 r0 1)"
  using Sphere_Hit_smallest_root [of 0 10 r0 s0 rec0]
  by (simp add: Let_def s0_def r0_def mkRay_def V3_def Origin_def Direction_def vsub_def Dot_def)

text \<open>
  Claim C3. Whenever \<open>Sphere::Hit\<close> reports a hit, the normal it stores is
  \<open>(hitPoint - center) / radius\<close>, the radius taken with its sign. The sphere with the
  negated radius is hit by the same ray at the same parameter and point, and its normal
  there is the exact negation.
\<close>

theorem Sphere_Hit_normal:
  "fst (Sphere_Hit s r tMin tMax rec) \<Longrightarrow>
   (let h = snd (Sphere_Hit s r tMin tMax rec);
        h' = snd (Sphere_Hit (s\<lparr>m_fRadius := - m_fRadius s\<rparr>) r tMin tMax rec)
    in m_oNormal h = vdivs (vsub (m_oPoint h) (m_oCenter s)) (m_fRadius s) \<and>
       fst (Sphere_Hit (s\<lparr>m_fRadius := - m_fRadius s\<rparr>) r tMin tMax rec) \<and>
       m_fT h' = m_fT h \<and> m_oPoint h' = m_oPoint h \<and>
       m_oNormal h' = vneg (m_oNormal h))"
  by (auto simp: Let_def Sphere_Hit_unfold sphere_desc_def sphere_a_def sphere_b_def
        sphere_c_def sphere_oc_def sphere_record_def vdivs_def vneg_def V3_def vsub_def
        split: if_splits)

theorem Sphere_Hit_normal_witness:
  "fst (Sphere_Hit s0 r0 0 10 rec0) \<and>
   m_oNormal (snd (Sphere_Hit s0 r0 0 10 rec0)) = V3 0 0 1 \<and>
   m_oNormal (snd (Sphere_Hit (s0\<lparr>m_fRadius := - m_fRadius s0\<rparr>) r0 0 10 rec0)) = V3 0 0 (-1)"
proof -
  have h: "Sphere_Hit s0 r0 0 10 rec0 = (True, sphere_record s0 r0 1)"
    by (simp add: Sphere_Hit_unfold sphere_desc_def sphere_a_def sphere_b_def
        sphere_c_def sphere_oc_def s0_def r0_def mkRay_def V3_def Origin_def Direction_def
        vsub_def Dot_def)
  have n: "m_oNormal (sphere_record s0 r0 1) = V3 0 0 1"
    by (simp add: sphere_record_def PointAtParamenter_def s0_def r0_def mkRay_def V3_def
        vadd_def smul_def vsub_def vdivs_def Let_def)
  have f: "fst (Sphere_Hit s0 r0 0 10 rec0)" using h by simp
  show ?thesis
    using Sphere_Hit_normal [OF f] h n by (simp add: Let_def vneg_def V3_def)
qed

section \<open>The fuzz of a metal\<close>

text \<open>
  Claim C8 says that the fuzz stored by the constructor of \<open>Metal\<close> lies in \<open>[0, 1)\<close>.
  The constructor replaces every value that is not below 1 by exactly 1, so the stored
  value for the argument 2 is 1, which is not strictly below 1.
\<close>

theorem Metal_fuzz_counterexample:
  "\<not> (0 \<le> m_fFuzz (Metal_ctor (V3 (7/10) (6/10) (5/10)) 2) \<and>
      m_fFuzz (Metal_ctor (V3 (7/10) (6/10) (5/10)) 2) < 1)"
  by (simp add: Metal_ctor_def)

text \<open>
  Claim C8, amended. The stored fuzz is the smaller of the argument and 1: it never
  exceeds 1, and it lies in the closed interval \<open>[0, 1]\<close> whenever the argument is not
  negative. Nothing bounds it from below.
\<close>

theorem Metal_fuzz_stored:
  "m_fFuzz (Metal_ctor a f) = min f 1 \<and>
   m_fFuzz (Metal_ctor a f) \<le> 1 \<and>
   (0 \<le> f \<longrightarrow> 0 \<le> m_fFuzz (Metal_ctor a f))"
  by (simp add: Metal_ctor_def)

theorem Metal_fuzz_stored_witness:
  "(0::real) \<le> 1/2 \<and> m_fFuzz (Metal_ctor (V3 (7/10) (6/10) (5/10)) (1/2)) = 1/2"
  using Metal_fuzz_stored [of "V3 (7/10) (6/10) (5/10)" "1/2"] by simp

section \<open>The closest hit of a list\<close>

lemma pick_None: "pick c xs = None \<longleftrightarrow> (\<forall>x \<in> set xs. \<not> m_fT x < c)"
  by (induction xs arbitrary: c) (auto split: option.splits)

lemma pick_Some:
  "pick c xs = Some y \<Longrightarrow> y \<in> set xs \<and> m_fT y < c \<and> (\<forall>x \<in> set xs. m_fT x < c \<longrightarrow> m_fT y \<le> m_fT x)"
proof (induction xs arbitrary: c y)
  case Nil then show ?case by simp
next
  case (Cons x xs)
  show ?case
  proof (cases "m_fT x < c")
    case True
    show ?thesis
    proof (cases "pick (m_fT x) xs")
      case None
      with True Cons.prems have "y = x" by simp
      moreover from None have "\<forall>z \<in> set xs. \<not> m_fT z < m_fT x" by (simp add: pick_None)
      ultimately show ?thesis using True by auto
    next
      case (Some z)
      with True Cons.prems have "y = z" by simp
      with Some Cons.IH[of "m_fT x" y] have
        "y \<in> set xs \<and> m_fT y < m_fT x \<and> (\<forall>w \<in> set xs. m_fT w < m_fT x \<longrightarrow> m_fT y \<le> m_fT w)" by simp
      then show ?thesis using True by (auto simp: not_less) 
    qed
  next
    case False
    with Cons.prems have "pick c xs = Some y" by simp
    from Cons.IH[OF this] show ?thesis using False by auto
  qed
qed

lemma pick_narrow:
  "c \<le> c' \<Longrightarrow>
   pick c xs = (case pick c' xs of Some y \<Rightarrow> if m_fT y < c then Some y else None | None \<Rightarrow> None)"
proof (induction xs arbitrary: c c')
  case Nil then show ?case by simp
next
  case (Cons x xs)
  consider (a) "m_fT x < c" | (b) "\<not> m_fT x < c" "m_fT x < c'" | (c) "\<not> m_fT x < c'"
    by blast
  then show ?case
  proof cases
    case a
    then have "m_fT x < c'" using Cons.prems by simp
    with a show ?thesis
      by (auto split: option.splits dest: pick_Some)
  next
    case b
    show ?thesis
    proof (cases "pick (m_fT x) xs")
      case None
      then have "\<forall>z \<in> set xs. \<not> m_fT z < m_fT x" by (simp add: pick_None)
      then have "\<forall>z \<in> set xs. \<not> m_fT z < c" using b by auto
      then have "pick c xs = None" by (simp add: pick_None)
      with b None show ?thesis by simp
    next
      case (Some y)
      have "c \<le> m_fT x" using b by simp
      from Cons.IH[OF this] Some b show ?thesis by simp
    qed
  next
    case c
    then have "\<not> m_fT x < c" using Cons.prems by simp
    with c Cons.IH[OF Cons.prems] show ?thesis by simp
  qed
qed

lemma pick_set_t:
  assumes "set xs = set ys"
  shows "map_option m_fT (pick c xs) = map_option m_fT (pick c ys)"
proof (cases "pick c xs")
  case None
  then have "pick c ys = None" using assms by (simp add: pick_None)
  with None show ?thesis by simp
next
  case (Some y)
  then have "pick c ys \<noteq> None" using assms pick_Some[OF Some] by (auto simp: pick_None)
  then obtain z where z: "pick c ys = Some z" by auto
  from pick_Some[OF Some] pick_Some[OF z] assms have "m_fT y \<le> m_fT z" "m_fT z \<le> m_fT y"
    by auto
  with Some z show ?thesis by simp
qed

lemma pick_set_eq:
  assumes "set xs = set ys"
    and "\<forall>x \<in> set xs. \<forall>y \<in> set xs. m_fT x = m_fT y \<longrightarrow> x = y"
  shows "pick c xs = pick c ys"
proof (cases "pick c xs")
  case None
  then have "pick c ys = None" using assms by (simp add: pick_None)
  with None show ?thesis by simp
next
  case (Some y)
  then have "pick c ys \<noteq> None" using assms pick_Some[OF Some] by (auto simp: pick_None)
  then obtain z where z: "pick c ys = Some z" by auto
  from pick_Some[OF Some] pick_Some[OF z] assms have "m_fT y \<le> m_fT z" "m_fT z \<le> m_fT y"
    "y \<in> set xs" "z \<in> set xs"
    by auto
  with assms(2) have "y = z" by auto
  with Some z show ?thesis by simp
qed

lemma narrows_sphere: "narrows junk r tMin tMax (SphereH s)"
  unfolding narrows_def member_hit_def
  using roots_ordered [of s r]
  by (auto simp: Sphere_Hit_unfold sphere_record_def Let_def)

lemma Hit_loop_pick:
  assumes "\<forall>h \<in> set hs. narrows junk r tMin tMax h" and "c \<le> tMax"
  shows "Hit_loop junk hs r tMin temp b c rec =
         (case pick c (member_hits junk r tMin tMax hs) of None \<Rightarrow> (b, rec) | Some y \<Rightarrow> (True, y))"
  using assms
proof (induction hs arbitrary: temp b c rec)
  case Nil
  then show ?case by (simp add: member_hits_def)
next
  case (Cons h hs)
  have n: "narrows junk r tMin tMax h" using Cons.prems by simp
  have rest: "\<forall>h \<in> set hs. narrows junk r tMin tMax h" using Cons.prems by simp
  let ?q = "member_hit junk r tMin tMax h"
  show ?case
  proof (cases "fst ?q \<and> m_fT (snd ?q) < c")
    case True
    then have h1: "Hit junk h r tMin c temp = (True, snd ?q)"
      using n Cons.prems(2) unfolding narrows_def by simp
    have le: "m_fT (snd ?q) \<le> tMax" using True Cons.prems(2) by simp
    have mh: "member_hits junk r tMin tMax (h # hs) = snd ?q # member_hits junk r tMin tMax hs"
      using True by (simp add: member_hits_def)
    show ?thesis
      using h1 True Cons.IH[OF rest le] by (simp add: mh split: option.splits)
  next
    case False
    then have h1: "Hit junk h r tMin c temp = (False, temp)"
      using n Cons.prems(2) unfolding narrows_def by auto
    have mh: "pick c (member_hits junk r tMin tMax (h # hs)) = pick c (member_hits junk r tMin tMax hs)"
      using False by (auto simp: member_hits_def)
    show ?thesis
      using h1 Cons.IH[OF rest Cons.prems(2)] by (simp add: mh)
  qed
qed

lemma narrows_all: "narrows junk r tMin tMax h"
proof (induction h)
  case (SphereH s)
  show ?case by (rule narrows_sphere)
next
  case (HittableList hs)
  then have all: "\<forall>h \<in> set hs. narrows junk r tMin tMax h" by simp
  let ?xs = "member_hits junk r tMin tMax hs"
  have full: "member_hit junk r tMin tMax (Hittable.HittableList hs) =
        (case pick tMax ?xs of None \<Rightarrow> (False, junk) | Some y \<Rightarrow> (True, y))"
    by (simp add: member_hit_def Hit_loop_pick[OF all])
  show ?case
    unfolding narrows_def
  proof (intro allI impI)
    fix c x assume c: "c \<le> tMax"
    have "Hit junk (Hittable.HittableList hs) r tMin c x =
          (case pick c ?xs of None \<Rightarrow> (False, x) | Some y \<Rightarrow> (True, y))"
      by (simp add: Hit_loop_pick[OF all c])
    also have "\<dots> = (if fst (member_hit junk r tMin tMax (Hittable.HittableList hs)) \<and>
                 m_fT (snd (member_hit junk r tMin tMax (Hittable.HittableList hs))) < c
              then (True, snd (member_hit junk r tMin tMax (Hittable.HittableList hs))) else (False, x))"
      unfolding full pick_narrow[OF c, of ?xs]
      by (simp split: option.splits)
    finally show "Hit junk (Hittable.HittableList hs) r tMin c x =
          (if fst (member_hit junk r tMin tMax (Hittable.HittableList hs)) \<and>
                 m_fT (snd (member_hit junk r tMin tMax (Hittable.HittableList hs))) < c
              then (True, snd (member_hit junk r tMin tMax (Hittable.HittableList hs))) else (False, x))" .
  qed
qed

lemma Hit_member:
  "Hit junk h r tMin tMax x =
     (if fst (member_hit junk r tMin tMax h) then (True, snd (member_hit junk r tMin tMax h))
      else (False, x))"
  and member_hit_below: "fst (member_hit junk r tMin tMax h) \<Longrightarrow>
     m_fT (snd (member_hit junk r tMin tMax h)) < tMax"
proof -
  let ?q = "member_hit junk r tMin tMax h"
  have n: "\<And>x. Hit junk h r tMin tMax x =
      (if fst ?q \<and> m_fT (snd ?q) < tMax then (True, snd ?q) else (False, x))"
    using narrows_all[of junk r tMin tMax h] unfolding narrows_def by simp
  have "?q = (if fst ?q \<and> m_fT (snd ?q) < tMax then (True, snd ?q) else (False, junk))"
    using n[of junk] by (simp add: member_hit_def)
  then have b: "fst ?q \<longrightarrow> m_fT (snd ?q) < tMax"
    by (metis fst_conv)
  then show "fst ?q \<Longrightarrow> m_fT (snd ?q) < tMax" by simp
  show "Hit junk h r tMin tMax x = (if fst ?q then (True, snd ?q) else (False, x))"
    using n[of x] b by simp
qed

lemma set_member_hits:
  "set (member_hits junk r tMin tMax hs) =
     {snd (member_hit junk r tMin tMax h) | h. h \<in> set hs \<and> fst (member_hit junk r tMin tMax h)}"
  by (auto simp: member_hits_def)

lemma HittableList_Hit_pick:
  "Hit junk (HittableList hs) r tMin tMax rec =
     (case pick tMax (member_hits junk r tMin tMax hs) of None \<Rightarrow> (False, rec) | Some y \<Rightarrow> (True, y))"
  by (simp add: Hit_loop_pick narrows_all)

lemma member_hit_above:
  "fst (member_hit junk r tMin tMax h) \<Longrightarrow> tMin < m_fT (snd (member_hit junk r tMin tMax h))"
proof (induction h)
  case (SphereH s)
  then show ?case
    by (auto simp: member_hit_def Sphere_Hit_unfold sphere_record_def Let_def split: if_splits)
next
  case (HittableList hs)
  let ?xs = "member_hits junk r tMin tMax hs"
  have e: "member_hit junk r tMin tMax (Hittable.HittableList hs) =
      (case pick tMax ?xs of None \<Rightarrow> (False, junk) | Some y \<Rightarrow> (True, y))"
    unfolding member_hit_def by (rule HittableList_Hit_pick)
  with HittableList.prems obtain y where y: "pick tMax ?xs = Some y"
    by (cases "pick tMax ?xs") auto
  then have "y \<in> set ?xs" by (simp add: pick_Some)
  then obtain h where h: "h \<in> set hs" "fst (member_hit junk r tMin tMax h)"
     "y = snd (member_hit junk r tMin tMax h)"
    by (auto simp: set_member_hits)
  then have "tMin < m_fT y" using HittableList.IH by simp
  then show ?case using e y by simp
qed

lemma pick_snoc:
  "pick c (xs @ [z]) =
     (case pick c xs of
        None \<Rightarrow> if m_fT z < c then Some z else None
      | Some y \<Rightarrow> if m_fT z < m_fT y then Some z else Some y)"
proof (induction xs arbitrary: c)
  case Nil
  then show ?case by simp
next
  case (Cons x xs)
  show ?case
  proof (cases "m_fT x < c")
    case True
    then show ?thesis
      using Cons.IH[of "m_fT x"] by (auto split: option.splits)
  next
    case False
    then show ?thesis using Cons.IH[of c] by simp
  qed
qed

text \<open>
  Appending a member: it is queried with the upper bound at the closest parameter found
  among the members before it, and replaces their result exactly when it reports a hit.
\<close>

lemma Hit_loop_snoc:
  "Hit junk (HittableList (hs @ [h])) r tMin tMax rec =
     (let before = Hit junk (HittableList hs) r tMin tMax rec;
          closest = (if fst before then m_fT (snd before) else tMax);
          last = Hit junk h r tMin closest junk
      in if fst last then (True, snd last) else before)"
proof -
  let ?q = "member_hit junk r tMin tMax h"
  let ?xs = "member_hits junk r tMin tMax hs"
  let ?before = "Hit junk (HittableList hs) r tMin tMax rec"
  let ?closest = "if fst ?before then m_fT (snd ?before) else tMax"
  have before: "?before = (case pick tMax ?xs of None \<Rightarrow> (False, rec) | Some y \<Rightarrow> (True, y))"
    by (rule HittableList_Hit_pick)
  have le: "?closest \<le> tMax"
  proof (cases "pick tMax ?xs")
    case None then show ?thesis unfolding before by simp
  next
    case (Some y)
    then have "m_fT y < tMax" by (simp add: pick_Some)
    with Some show ?thesis unfolding before by simp
  qed
  have last: "Hit junk h r tMin ?closest junk =
      (if fst ?q \<and> m_fT (snd ?q) < ?closest then (True, snd ?q) else (False, junk))"
    using narrows_all[of junk r tMin tMax h] le unfolding narrows_def by blast
  have mh: "member_hits junk r tMin tMax (hs @ [h]) = ?xs @ (if fst ?q then [snd ?q] else [])"
    by (simp add: member_hits_def)
  have whole: "Hit junk (HittableList (hs @ [h])) r tMin tMax rec =
      (case pick tMax (?xs @ (if fst ?q then [snd ?q] else [])) of
         None \<Rightarrow> (False, rec) | Some y \<Rightarrow> (True, y))"
    unfolding mh[symmetric] by (rule HittableList_Hit_pick)
  have step: "Hit junk (HittableList (hs @ [h])) r tMin tMax rec =
      (if fst ?q \<and> m_fT (snd ?q) < ?closest then (True, snd ?q) else ?before)"
  proof (cases "fst ?q")
    case False
    then show ?thesis unfolding whole before by simp
  next
    case True
    show ?thesis
    proof (cases "pick tMax ?xs")
      case None
      then show ?thesis unfolding whole before using True by (simp add: pick_snoc)
    next
      case (Some y)
      then show ?thesis unfolding whole before using True by (simp add: pick_snoc)
    qed
  qed
  show ?thesis
  proof (cases "fst ?q \<and> m_fT (snd ?q) < ?closest")
    case True
    have "Hit junk h r tMin ?closest junk = (True, snd ?q)" unfolding last using True by (rule if_P)
    moreover have "Hit junk (HittableList (hs @ [h])) r tMin tMax rec = (True, snd ?q)"
      unfolding step using True by (rule if_P)
    ultimately show ?thesis by (simp only: Let_def fst_conv snd_conv if_True)
  next
    case False
    have "Hit junk h r tMin ?closest junk = (False, junk)" unfolding last using False by (rule if_not_P)
    moreover have "Hit junk (HittableList (hs @ [h])) r tMin tMax rec = ?before"
      unfolding step using False by (rule if_not_P)
    ultimately show ?thesis by (simp only: Let_def fst_conv snd_conv if_False)
  qed
qed

lemma Sphere_Hit_s0: "Sphere_Hit s0 r0 0 10 x = (True, sphere_record s0 r0 1)"
  by (simp add: Sphere_Hit_unfold sphere_desc_def sphere_a_def sphere_b_def
      sphere_c_def sphere_oc_def s0_def r0_def mkRay_def V3_def Origin_def Direction_def
      vsub_def Dot_def)

lemma Sphere_Hit_s0_narrow: "Sphere_Hit s0 r0 0 1 x = (False, x)"
  by (simp add: Sphere_Hit_unfold sphere_desc_def sphere_a_def sphere_b_def
      sphere_c_def sphere_oc_def s0_def r0_def mkRay_def V3_def Origin_def Direction_def
      vsub_def Dot_def)

lemma Sphere_Hit_s1: "Sphere_Hit s1 r0 0 10 x = (True, sphere_record s1 r0 1)"
  by (simp add: Sphere_Hit_unfold sphere_desc_def sphere_a_def sphere_b_def
      sphere_c_def sphere_oc_def s1_def r0_def mkRay_def V3_def Origin_def Direction_def
      vsub_def Dot_def)

lemma Sphere_Hit_s1_narrow: "Sphere_Hit s1 r0 0 1 x = (False, x)"
  by (simp add: Sphere_Hit_unfold sphere_desc_def sphere_a_def sphere_b_def
      sphere_c_def sphere_oc_def s1_def r0_def mkRay_def V3_def Origin_def Direction_def
      vsub_def Dot_def)

lemma Sphere_Hit_s2: "Sphere_Hit s2 r0 0 10 x = (True, sphere_record s2 r0 4)"
  by (simp add: Sphere_Hit_unfold sphere_desc_def sphere_a_def sphere_b_def
      sphere_c_def sphere_oc_def s2_def r0_def mkRay_def V3_def Origin_def Direction_def
      vsub_def Dot_def)

lemma m_fT_sphere_record: "m_fT (sphere_record s r t) = t"
  by (simp add: sphere_record_def Let_def)

text \<open>
  Claim C2 says that the hit returned by \<open>HittableList::Hit\<close> does not depend on the
  order of the members. The spheres \<open>s0\<close> and \<open>s1\<close> touch at \<open>(0, 0, -1)\<close>, and the
  ray \<open>r0\<close> meets both there at \<open>t = 1\<close>. The comparison with the narrowed bound is
  strict, so the member stored first keeps the hit: the list \<open>[s0, s1]\<close> returns the
  normal \<open>(0, 0, 1)\<close> of \<open>s0\<close>, the list \<open>[s1, s0]\<close> the normal \<open>(0, 0, -1)\<close> of \<open>s1\<close>.
\<close>

theorem HittableList_Hit_order_counterexample:
  "Hit rec0 (HittableList [SphereH s0, SphereH s1]) r0 0 10 rec0 \<noteq>
   Hit rec0 (HittableList [SphereH s1, SphereH s0]) r0 0 10 rec0"
proof -
  have a: "Hit rec0 (HittableList [SphereH s0, SphereH s1]) r0 0 10 rec0 =
           (True, sphere_record s0 r0 1)"
    by (simp add: Sphere_Hit_s0 Sphere_Hit_s1_narrow m_fT_sphere_record)
  have b: "Hit rec0 (HittableList [SphereH s1, SphereH s0]) r0 0 10 rec0 =
           (True, sphere_record s1 r0 1)"
    by (simp add: Sphere_Hit_s1 Sphere_Hit_s0_narrow m_fT_sphere_record)
  have "m_oNormal (sphere_record s0 r0 1) = V3 0 0 1"
    by (simp add: sphere_record_def PointAtParamenter_def s0_def r0_def mkRay_def V3_def
        vadd_def smul_def vsub_def vdivs_def Let_def)
  moreover have "m_oNormal (sphere_record s1 r0 1) = V3 0 0 (-1)"
    by (simp add: sphere_record_def PointAtParamenter_def s1_def r0_def mkRay_def V3_def
        vadd_def smul_def vsub_def vdivs_def Let_def)
  ultimately have "sphere_record s0 r0 1 \<noteq> sphere_record s1 r0 1"
    by (auto simp: V3_def)
  with a b show ?thesis by simp
qed

text \<open>
  Claim C2, amended. \<open>HittableList::Hit\<close> queries the members in list order with the
  upper bound narrowed to the closest parameter found so far: a member \<open>m\<close> that follows
  the members \<open>hs\<close> is queried with the bound at the parameter returned for \<open>hs\<close>, or at
  \<open>tMax\<close> when none of them was hit, and its hit replaces theirs. The list reports a hit exactly
  when some member has a hit in \<open>(tMin, tMax)\<close>; without a hit the caller's record is
  unchanged; with a hit the returned record is the hit of one member, lies in the
  interval, and no member has a hit with a smaller parameter. For every reordering of
  the list, whether there is a hit and the returned parameter are the same, and the
  whole record is the same whenever members that hit at the same parameter report the
  same record (in particular when the nearest hit is unique).
\<close>

theorem HittableList_Hit_nearest:
  "mset hs' = mset hs \<Longrightarrow>
   (let res = Hit junk (HittableList hs) r tMin tMax rec;
        res' = Hit junk (HittableList hs') r tMin tMax rec;
        own = (\<lambda>h. Hit junk h r tMin tMax rec)
    in (fst res \<longleftrightarrow> (\<exists>h \<in> set hs. fst (own h))) \<and>
       (\<not> fst res \<longrightarrow> snd res = rec) \<and>
       (fst res \<longrightarrow> tMin < m_fT (snd res) \<and> m_fT (snd res) < tMax \<and>
          (\<exists>h \<in> set hs. own h = res) \<and>
          (\<forall>h \<in> set hs. fst (own h) \<longrightarrow> m_fT (snd res) \<le> m_fT (snd (own h)))) \<and>
       fst res' = fst res \<and>
       (fst res \<longrightarrow> m_fT (snd res') = m_fT (snd res)) \<and>
       ((\<forall>h \<in> set hs. \<forall>k \<in> set hs.
            fst (own h) \<and> fst (own k) \<and> m_fT (snd (own h)) = m_fT (snd (own k))
            \<longrightarrow> snd (own h) = snd (own k))
        \<longrightarrow> res' = res) \<and>
       (let closest = (if fst res then m_fT (snd res) else tMax);
            last = Hit junk m r tMin closest junk
        in Hit junk (HittableList (hs @ [m])) r tMin tMax rec =
             (if fst last then (True, snd last) else res)))"
proof -
  assume p: "mset hs' = mset hs"
  then have sh: "set hs' = set hs" by (rule mset_eq_setD)
  let ?q = "member_hit junk r tMin tMax"
  let ?xs = "member_hits junk r tMin tMax hs"
  let ?xs' = "member_hits junk r tMin tMax hs'"
  let ?res = "Hit junk (HittableList hs) r tMin tMax rec"
  let ?res' = "Hit junk (HittableList hs') r tMin tMax rec"
  let ?own = "\<lambda>h. Hit junk h r tMin tMax rec"
  have sx: "set ?xs' = set ?xs" by (simp add: set_member_hits sh)
  have own: "\<And>h. ?own h = (if fst (?q h) then (True, snd (?q h)) else (False, rec))"
    by (rule Hit_member)
  have res: "?res = (case pick tMax ?xs of None \<Rightarrow> (False, rec) | Some y \<Rightarrow> (True, y))"
    by (rule HittableList_Hit_pick)
  have res': "?res' = (case pick tMax ?xs' of None \<Rightarrow> (False, rec) | Some y \<Rightarrow> (True, y))"
    by (rule HittableList_Hit_pick)
  have below: "\<And>x. x \<in> set ?xs \<Longrightarrow> m_fT x < tMax"
    by (auto simp: set_member_hits member_hit_below)
  have c1: "fst ?res \<longleftrightarrow> (\<exists>h \<in> set hs. fst (?own h))"
  proof (cases "pick tMax ?xs")
    case None
    then have "\<forall>x \<in> set ?xs. \<not> m_fT x < tMax" by (simp add: pick_None)
    with below have "\<forall>x. x \<notin> set ?xs" by blast
    then have "\<forall>h \<in> set hs. \<not> fst (?q h)" unfolding set_member_hits by blast
    with None show ?thesis unfolding res by (simp add: own del: Hit.simps)
  next
    case (Some y)
    then have "y \<in> set ?xs" by (simp add: pick_Some)
    then have "\<exists>h \<in> set hs. fst (?q h)" by (auto simp: set_member_hits)
    with Some show ?thesis unfolding res by (simp add: own del: Hit.simps)
  qed
  have c2: "\<not> fst ?res \<longrightarrow> snd ?res = rec"
    by (simp add: res del: Hit.simps split: option.splits)
  have c3: "fst ?res \<longrightarrow> tMin < m_fT (snd ?res) \<and> m_fT (snd ?res) < tMax \<and>
          (\<exists>h \<in> set hs. ?own h = ?res) \<and>
          (\<forall>h \<in> set hs. fst (?own h) \<longrightarrow> m_fT (snd ?res) \<le> m_fT (snd (?own h)))"
  proof
    assume f: "fst ?res"
    then obtain y where y: "pick tMax ?xs = Some y" "?res = (True, y)"
      by (cases "pick tMax ?xs") (auto simp: res simp del: Hit.simps)
    from pick_Some[OF y(1)] have yin: "y \<in> set ?xs" and ylt: "m_fT y < tMax"
      and ymin: "\<forall>x \<in> set ?xs. m_fT x < tMax \<longrightarrow> m_fT y \<le> m_fT x" by auto
    from yin obtain h where h: "h \<in> set hs" "fst (?q h)" "y = snd (?q h)"
      by (auto simp: set_member_hits)
    have a: "tMin < m_fT y" using h member_hit_above by simp
    have "?own h = (True, y)" using h by (simp add: own del: Hit.simps)
    then have "?own h = ?res" using y(2) by simp
    then have b: "\<exists>h \<in> set hs. ?own h = ?res" using h(1) by blast
    have c: "\<forall>k \<in> set hs. fst (?own k) \<longrightarrow> m_fT y \<le> m_fT (snd (?own k))"
    proof (intro ballI impI)
      fix k assume k: "k \<in> set hs" "fst (?own k)"
      then have fk: "fst (?q k)" by (simp add: own del: Hit.simps split: if_splits)
      then have "snd (?q k) \<in> set ?xs" using k by (auto simp: set_member_hits)
      with ymin below have "m_fT y \<le> m_fT (snd (?q k))" by simp
      then show "m_fT y \<le> m_fT (snd (?own k))" using fk by (simp add: own del: Hit.simps)
    qed
    show "tMin < m_fT (snd ?res) \<and> m_fT (snd ?res) < tMax \<and>
          (\<exists>h \<in> set hs. ?own h = ?res) \<and>
          (\<forall>h \<in> set hs. fst (?own h) \<longrightarrow> m_fT (snd ?res) \<le> m_fT (snd (?own h)))"
      using a ylt b c y by (simp del: Hit.simps)
  qed
  have t: "map_option m_fT (pick tMax ?xs') = map_option m_fT (pick tMax ?xs)"
    using sx by (rule pick_set_t)
  have c4: "fst ?res' = fst ?res"
    unfolding res res' using t
    by (cases "pick tMax ?xs'"; cases "pick tMax ?xs") simp_all
  have c5: "fst ?res \<longrightarrow> m_fT (snd ?res') = m_fT (snd ?res)"
    unfolding res res' using t
    by (cases "pick tMax ?xs'"; cases "pick tMax ?xs") simp_all
  have c6: "(\<forall>h \<in> set hs. \<forall>k \<in> set hs.
            fst (?own h) \<and> fst (?own k) \<and> m_fT (snd (?own h)) = m_fT (snd (?own k))
            \<longrightarrow> snd (?own h) = snd (?own k)) \<longrightarrow> ?res' = ?res"
  proof
    assume u: "\<forall>h \<in> set hs. \<forall>k \<in> set hs.
            fst (?own h) \<and> fst (?own k) \<and> m_fT (snd (?own h)) = m_fT (snd (?own k))
            \<longrightarrow> snd (?own h) = snd (?own k)"
    have "\<forall>x \<in> set ?xs. \<forall>y \<in> set ?xs. m_fT x = m_fT y \<longrightarrow> x = y"
    proof (intro ballI impI)
      fix x y assume xy: "x \<in> set ?xs" "y \<in> set ?xs" "m_fT x = m_fT y"
      then obtain h k where hk: "h \<in> set hs" "fst (?q h)" "x = snd (?q h)"
          "k \<in> set hs" "fst (?q k)" "y = snd (?q k)"
        by (auto simp: set_member_hits)
      then have "fst (?own h) \<and> fst (?own k) \<and> m_fT (snd (?own h)) = m_fT (snd (?own k))"
        using xy by (simp add: own del: Hit.simps)
      with u hk have "snd (?own h) = snd (?own k)" by blast
      then show "x = y" using hk by (simp add: own del: Hit.simps)
    qed
    with sx have "pick tMax ?xs' = pick tMax ?xs"
      using pick_set_eq[of ?xs ?xs' tMax] by simp
    then show "?res' = ?res" by (simp add: res res' del: Hit.simps)
  qed
  have c7: "Hit junk (HittableList (hs @ [m])) r tMin tMax rec =
      (if fst (Hit junk m r tMin (if fst ?res then m_fT (snd ?res) else tMax) junk)
       then (True, snd (Hit junk m r tMin (if fst ?res then m_fT (snd ?res) else tMax) junk))
       else ?res)"
    using Hit_loop_snoc [of junk hs m r tMin tMax rec] unfolding Let_def .
  show ?thesis
    unfolding Let_def using c1 c2 c3 c4 c5 c6 c7 by blast
qed

theorem HittableList_Hit_nearest_witness:
  "mset [SphereH s2, SphereH s0] = mset [SphereH s0, SphereH s2] \<and>
   Hit rec0 (HittableList [SphereH s2, SphereH s0]) r0 0 10 rec0 =
     Hit rec0 (HittableList [SphereH s0, SphereH s2]) r0 0 10 rec0 \<and>
   fst (Hit rec0 (HittableList [SphereH s0, SphereH s2]) r0 0 10 rec0) \<and>
   m_fT (snd (Hit rec0 (HittableList [SphereH s0, SphereH s2]) r0 0 10 rec0)) = 1"
proof -
  have p: "mset [SphereH s2, SphereH s0] = mset [SphereH s0, SphereH s2]"
    by (simp add: add.commute)
  have u: "\<forall>h \<in> set [SphereH s0, SphereH s2]. \<forall>k \<in> set [SphereH s0, SphereH s2].
        fst (Hit rec0 h r0 0 10 rec0) \<and> fst (Hit rec0 k r0 0 10 rec0) \<and>
        m_fT (snd (Hit rec0 h r0 0 10 rec0)) = m_fT (snd (Hit rec0 k r0 0 10 rec0))
        \<longrightarrow> snd (Hit rec0 h r0 0 10 rec0) = snd (Hit rec0 k r0 0 10 rec0)"
    by (simp add: Sphere_Hit_s0 Sphere_Hit_s2 m_fT_sphere_record)
  have e: "\<exists>h \<in> set [SphereH s0, SphereH s2]. fst (Hit rec0 h r0 0 10 rec0)"
    by (simp add: Sphere_Hit_s0)
  have m: "\<forall>h \<in> set [SphereH s0, SphereH s2]. fst (Hit rec0 h r0 0 10 rec0) \<longrightarrow>
        1 \<le> m_fT (snd (Hit rec0 h r0 0 10 rec0))"
    by (simp add: Sphere_Hit_s0 Sphere_Hit_s2 m_fT_sphere_record)
  have own0: "Hit rec0 (SphereH s0) r0 0 10 rec0 = (True, sphere_record s0 r0 1)"
    by (simp add: Sphere_Hit_s0)
  note n = HittableList_Hit_nearest [OF p, of rec0 r0 0 10 rec0, unfolded Let_def]
  from n e have f: "fst (Hit rec0 (HittableList [SphereH s0, SphereH s2]) r0 0 10 rec0)"
    by blast
  from n u have q: "Hit rec0 (HittableList [SphereH s2, SphereH s0]) r0 0 10 rec0 =
     Hit rec0 (HittableList [SphereH s0, SphereH s2]) r0 0 10 rec0"
    by blast
  from n f have "m_fT (snd (Hit rec0 (HittableList [SphereH s0, SphereH s2]) r0 0 10 rec0))
       \<le> m_fT (snd (Hit rec0 (SphereH s0) r0 0 10 rec0))"
    using own0 by (metis fst_conv list.set_intros(1))
  then have le: "m_fT (snd (Hit rec0 (HittableList [SphereH s0, SphereH s2]) r0 0 10 rec0)) \<le> 1"
    by (simp add: Sphere_Hit_s0 m_fT_sphere_record del: Hit.simps(2))
  from n f obtain h where h: "h \<in> set [SphereH s0, SphereH s2]"
     "Hit rec0 h r0 0 10 rec0 = Hit rec0 (HittableList [SphereH s0, SphereH s2]) r0 0 10 rec0"
    by blast
  with f m have "1 \<le> m_fT (snd (Hit rec0 (HittableList [SphereH s0, SphereH s2]) r0 0 10 rec0))"
    by metis
  with le p q f show ?thesis by (simp del: Hit.simps)
qed

section \<open>Terminal cases of the path integrators\<close>

lemma Color_miss:
  "\<not> fst (Hit junk world ray (1/1000) FLT_MAX junk) \<Longrightarrow>
   Color junk jv rs ray world depth = Some (sky_gradient ray, rs)"
  by (subst Color.simps)
     (auto simp: sky_gradient_def lerp_def Let_def split: prod.splits bool.splits)

lemma Color_limit:
  "fst (Hit junk world ray (1/1000) FLT_MAX junk) \<Longrightarrow> 50 \<le> depth \<Longrightarrow>
   Color junk jv rs ray world depth = Some (V3 0 0 0, rs)"
  by (subst Color.simps) (auto split: prod.splits bool.splits)

lemma ColorOptimized_limit:
  "max_depth \<le> depth \<Longrightarrow>
   ColorOptimized random junk g ray world depth max_depth = Some (V3 0 0 0, g)"
  by (subst ColorOptimized.simps) simp

lemma ColorOptimized_miss:
  "depth < max_depth \<Longrightarrow> \<not> fst (Hit junk world ray (1/1000) FLT_MAX junk) \<Longrightarrow>
   ColorOptimized random junk g ray world depth max_depth = Some (sky_gradient ray, g)"
  by (subst ColorOptimized.simps)
     (auto simp: sky_gradient_def lerp_def Let_def split: prod.splits bool.splits)

lemma sky_r0: "sky_gradient r0 = V3 (3/4) (17/20) 1"
  by (simp add: sky_gradient_def lerp_def r0_def mkRay_def Direction_def Unit_Vector_def
      Length_def vdivs_def V3_def GetY_def vadd_def smul_def)

lemma Hit_s0_far: "Hit junk (SphereH s0) r0 (1/1000) FLT_MAX x = (True, sphere_record s0 r0 1)"
  by (simp add: Sphere_Hit_unfold sphere_desc_def sphere_a_def sphere_b_def
      sphere_c_def sphere_oc_def s0_def r0_def mkRay_def V3_def Origin_def Direction_def
      vsub_def Dot_def FLT_MAX_def)

lemma Hit_empty: "Hit junk (HittableList []) r tMin tMax rec = (False, rec)"
  by simp

text \<open>
  Claim C6 says that the integrator returns black when the depth limit is reached and
  the sky gradient for every ray that hits nothing. The two integrators order the two
  tests differently, and each breaks one half where both conditions meet. In an empty
  scene \<open>Color\<close> at depth 50 returns the sky colour \<open>(0.75, 0.85, 1)\<close> of the ray \<open>r0\<close>,
  not black; \<open>ColorOptimized\<close> at depth 6 of 6 returns black, not that sky colour.
\<close>

theorem Color_terminal_counterexample:
  "Color rec0 (V3 0 0 0) [] r0 (HittableList []) 50 = Some (V3 (3/4) (17/20) 1, []) \<and>
   ColorOptimized list_random rec0 [] r0 (HittableList []) 6 6 = Some (V3 0 0 0, []) \<and>
   sky_gradient r0 = V3 (3/4) (17/20) 1 \<and>
   V3 (3/4) (17/20) 1 \<noteq> V3 0 0 0"
proof -
  have "Color rec0 (V3 0 0 0) [] r0 (HittableList []) 50 = Some (sky_gradient r0, [])"
    by (rule Color_miss) simp
  moreover have "ColorOptimized list_random rec0 [] r0 (HittableList []) 6 6 = Some (V3 0 0 0, [])"
    by (rule ColorOptimized_limit) simp
  ultimately show ?thesis by (simp add: sky_r0) (simp add: V3_def)
qed

text \<open>
  Claim C6, amended. \<open>Color\<close> returns the sky gradient
  \<open>lerp(white, skyBlue, 0.5 * (unitDirection.y + 1))\<close>, with white \<open>(1, 1, 1)\<close> and sky
  blue \<open>(0.5, 0.7, 1.0)\<close>, for every ray that hits nothing, at every depth, and returns
  black for every ray that hits something at depth 50 or more. \<open>ColorOptimized\<close> returns
  black whenever the depth has reached \<open>max_depth\<close>, and the same sky gradient for every
  ray that hits nothing at a smaller depth. None of these cases consumes a random number.
\<close>

theorem Color_terminal:
  "(\<not> fst (Hit junk world ray (1/1000) FLT_MAX junk) \<longrightarrow>
      Color junk jv rs ray world depth = Some (sky_gradient ray, rs)) \<and>
   (fst (Hit junk world ray (1/1000) FLT_MAX junk) \<and> 50 \<le> depth \<longrightarrow>
      Color junk jv rs ray world depth = Some (V3 0 0 0, rs)) \<and>
   (max_depth \<le> depth \<longrightarrow>
      ColorOptimized random junk g ray world depth max_depth = Some (V3 0 0 0, g)) \<and>
   (depth < max_depth \<and> \<not> fst (Hit junk world ray (1/1000) FLT_MAX junk) \<longrightarrow>
      ColorOptimized random junk g ray world depth max_depth = Some (sky_gradient ray, g)) \<and>
   sky_gradient ray =
     vadd (smul (1 - (1/2) * (GetY (Unit_Vector (Direction ray)) + 1)) (V3 1 1 1))
          (smul ((1/2) * (GetY (Unit_Vector (Direction ray)) + 1)) (V3 (1/2) (7/10) 1))"
  by (simp add: Color_miss Color_limit ColorOptimized_limit ColorOptimized_miss
      sky_gradient_def lerp_def del: Color.simps ColorOptimized.simps)

theorem Color_terminal_witness:
  "\<not> fst (Hit rec0 (HittableList []) r0 (1/1000) FLT_MAX rec0) \<and>
   Color rec0 (V3 0 0 0) [1, 2] r0 (HittableList []) 0 = Some (sky_gradient r0, [1, 2]) \<and>
   fst (Hit rec0 (SphereH s0) r0 (1/1000) FLT_MAX rec0) \<and> (50::int) \<le> 50 \<and>
   Color rec0 (V3 0 0 0) [1, 2] r0 (SphereH s0) 50 = Some (V3 0 0 0, [1, 2]) \<and>
   (6::int) \<le> 7 \<and>
   ColorOptimized list_random rec0 [1/2] r0 (SphereH s0) 7 6 = Some (V3 0 0 0, [1/2]) \<and>
   (0::int) < 6 \<and>
   ColorOptimized list_random rec0 [1/2] r0 (HittableList []) 0 6 = Some (sky_gradient r0, [1/2])"
proof -
  have m: "\<not> fst (Hit rec0 (HittableList []) r0 (1/1000) FLT_MAX rec0)" by simp
  have h: "fst (Hit rec0 (SphereH s0) r0 (1/1000) FLT_MAX rec0)"
    by (simp add: Hit_s0_far del: Hit.simps)
  show ?thesis
    using m h
      Color_terminal [of rec0 "HittableList []" r0 "V3 0 0 0" "[1, 2]" 0 6 list_random "[1/2]"]
      Color_terminal [of rec0 "SphereH s0" r0 "V3 0 0 0" "[1, 2]" 50 6 list_random "[1/2]"]
      Color_terminal [of rec0 "SphereH s0" r0 "V3 0 0 0" "[1, 2]" 7 6 list_random "[1/2]"]
    by (simp del: Hit.simps Color.simps ColorOptimized.simps)
qed

text \<open>
  Claim C10. On a list of size zero \<open>HittableList::Hit\<close> reports no hit and returns the
  caller's record as it was, for every ray and interval; with such a list as the scene,
  \<open>Color\<close> returns exactly the sky gradient of the ray, at every depth and without
  consuming a random number.
\<close>

theorem empty_list_sky:
  "Hit junk (HittableList []) ray tMin tMax rec = (False, rec) \<and>
   Color junk jv rs ray (HittableList []) depth = Some (sky_gradient ray, rs)"
proof -
  have "\<not> fst (Hit junk (HittableList []) ray (1/1000) FLT_MAX junk)"
    by (simp add: Hit_empty)
  then have "Color junk jv rs ray (HittableList []) depth = Some (sky_gradient ray, rs)"
    by (rule Color_miss)
  then show ?thesis by (simp add: Hit_empty del: Color.simps)
qed

section \<open>The tile partition\<close>

lemma tiles_across_bounds:
  assumes "0 < T"
  shows "W \<le> rounded_up W T"
    and "k < tiles_across W T \<Longrightarrow> int k * T < W"
    and "k < tiles_across W T \<Longrightarrow> int k * T + T \<le> rounded_up W T"
proof -
  have d: "(W - 1) div T * T + (W - 1) mod T = W - 1" by simp
  have m: "0 \<le> (W - 1) mod T" "(W - 1) mod T < T" using assms by simp_all
  show "W \<le> rounded_up W T"
  proof (cases "W \<le> 0")
    case True then show ?thesis by (simp add: rounded_up_def tiles_across_def)
  next
    case False
    then have n: "int (tiles_across W T) = (W - 1) div T + 1"
      using assms by (simp add: tiles_across_def pos_imp_zdiv_nonneg_iff)
    have "((W - 1) div T + 1) * T = (W - 1) div T * T + T" by (simp add: distrib_right)
    with d m have "W - 1 < ((W - 1) div T + 1) * T" by linarith
    then show ?thesis by (simp add: rounded_up_def n)
  qed
  {
    assume k: "k < tiles_across W T"
    then have W: "0 < W" by (auto simp: tiles_across_def split: if_splits)
    then have n: "int (tiles_across W T) = (W - 1) div T + 1"
      using assms by (simp add: tiles_across_def pos_imp_zdiv_nonneg_iff)
    with k have "int k \<le> (W - 1) div T" by linarith
    then have "int k * T \<le> ((W - 1) div T) * T" using assms by (simp add: mult_right_mono)
    also have "\<dots> \<le> W - 1" using d m by linarith
    finally show "int k * T < W" by simp
    from k have "int k + 1 \<le> int (tiles_across W T)" by linarith
    then have "(int k + 1) * T \<le> int (tiles_across W T) * T"
      using assms by (simp add: mult_right_mono)
    then show "int k * T + T \<le> rounded_up W T"
      by (simp add: rounded_up_def distrib_right)
  }
qed

lemma create_tiles_x_row:
  assumes T: "0 < T" and W: "rounded_up W T \<le> INT_MAX" and y: "0 \<le> y" "y < H" "H \<le> INT_MAX"
    and k: "k \<le> tiles_across W T"
  shows "create_tiles_x W H S T y (int k * T) tiles =
         Some (tiles @ map (\<lambda>i. mkTile (int i * T) y (min T (W - int i * T)) (min T (H - y)) S)
                        [k ..< tiles_across W T])"
  using k
proof (induction "tiles_across W T - k" arbitrary: k tiles)
  case 0
  then have e: "k = tiles_across W T" by simp
  have "W \<le> int k * T" using tiles_across_bounds(1)[OF T, of W] by (simp add: e rounded_up_def)
  then show ?case by (subst create_tiles_x.simps) (simp add: e)
next
  case (Suc n)
  then have lt: "k < tiles_across W T" by simp
  have x: "int k * T < W" using tiles_across_bounds(2)[OF T lt] .
  have x0: "0 \<le> int k * T" using T by simp
  have nx: "int k * T + T \<le> INT_MAX" using tiles_across_bounds(3)[OF T lt] W by simp
  have Wm: "W \<le> INT_MAX" using tiles_across_bounds(1)[OF T, of W] W by simp
  have s1: "int_sub W (int k * T) = Some (W - int k * T)"
    using x x0 Wm by (simp add: int_sub_def INT_MIN_def INT_MAX_def)
  have s2: "int_sub H y = Some (H - y)"
    using y by (simp add: int_sub_def INT_MIN_def INT_MAX_def)
  have "0 \<le> int k * T + T" using x0 T by simp
  then have s3: "int_add (int k * T) T = Some (int (Suc k) * T)"
    using nx by (simp add: int_add_def INT_MIN_def INT_MAX_def distrib_right)
  have ih: "create_tiles_x W H S T y (int (Suc k) * T)
              (tiles @ [mkTile (int k * T) y (min T (W - int k * T)) (min T (H - y)) S]) =
            Some ((tiles @ [mkTile (int k * T) y (min T (W - int k * T)) (min T (H - y)) S]) @
                  map (\<lambda>i. mkTile (int i * T) y (min T (W - int i * T)) (min T (H - y)) S)
                      [Suc k ..< tiles_across W T])"
    using Suc.hyps(2) lt by (intro Suc.hyps(1)) auto
  show ?case
    by (subst create_tiles_x.simps) (simp add: x s1 s2 s3 ih Let_def upt_conv_Cons[OF lt] del: of_nat_Suc)
qed

lemma create_tiles_y_rows:
  assumes T: "0 < T" and W: "rounded_up W T \<le> INT_MAX" and H: "rounded_up H T \<le> INT_MAX"
    and k: "k \<le> tiles_across H T"
  shows "create_tiles_y W H S T (int k * T) tiles =
         Some (tiles @ concat (map (\<lambda>j. map (\<lambda>i. tile_at W H S T i j) [0 ..< tiles_across W T])
                        [k ..< tiles_across H T]))"
  using k
proof (induction "tiles_across H T - k" arbitrary: k tiles)
  case 0
  then have e: "k = tiles_across H T" by simp
  have "H \<le> int k * T" using tiles_across_bounds(1)[OF T, of H] by (simp add: e rounded_up_def)
  then show ?case by (subst create_tiles_y.simps) (simp add: e)
next
  case (Suc n)
  then have lt: "k < tiles_across H T" by simp
  have y: "int k * T < H" using tiles_across_bounds(2)[OF T lt] .
  have y0: "0 \<le> int k * T" using T by simp
  have ny: "int k * T + T \<le> INT_MAX" using tiles_across_bounds(3)[OF T lt] H by simp
  have Hm: "H \<le> INT_MAX" using tiles_across_bounds(1)[OF T, of H] H by simp
  have row: "create_tiles_x W H S T (int k * T) 0 tiles =
       Some (tiles @ map (\<lambda>i. tile_at W H S T i k) [0 ..< tiles_across W T])"
    using create_tiles_x_row[OF T W y0 y Hm, of 0 S tiles] by (simp add: tile_at_def)
  have "0 \<le> int k * T + T" using y0 T by simp
  then have s3: "int_add (int k * T) T = Some (int (Suc k) * T)"
    using ny by (simp add: int_add_def INT_MIN_def INT_MAX_def distrib_right)
  have ih: "create_tiles_y W H S T (int (Suc k) * T)
              (tiles @ map (\<lambda>i. tile_at W H S T i k) [0 ..< tiles_across W T]) =
            Some ((tiles @ map (\<lambda>i. tile_at W H S T i k) [0 ..< tiles_across W T]) @
                  concat (map (\<lambda>j. map (\<lambda>i. tile_at W H S T i j) [0 ..< tiles_across W T])
                        [Suc k ..< tiles_across H T]))"
    using Suc.hyps(2) lt by (intro Suc.hyps(1)) auto
  show ?case
    by (subst create_tiles_y.simps) (simp add: y row s3 ih upt_conv_Cons[OF lt] del: of_nat_Suc)
qed

lemma create_tiles_grid:
  assumes "0 < T" "rounded_up W T \<le> INT_MAX" "rounded_up H T \<le> INT_MAX"
  shows "create_tiles W H S T =
         Some (concat (map (\<lambda>j. map (\<lambda>i. tile_at W H S T i j) [0 ..< tiles_across W T])
                        [0 ..< tiles_across H T]))"
  using create_tiles_y_rows[OF assms, of 0 S "[]"] by (simp add: create_tiles_def)

lemma distinct_concat_map:
  "distinct js \<Longrightarrow> (\<forall>j \<in> set js. distinct (f j)) \<Longrightarrow>
   (\<forall>j \<in> set js. \<forall>k \<in> set js. j \<noteq> k \<longrightarrow> set (f j) \<inter> set (f k) = {}) \<Longrightarrow>
   distinct (concat (map f js))"
  by (induction js) auto

lemma filter_unique_length:
  assumes "distinct xs" "x \<in> set xs" "P x" "\<forall>y \<in> set xs. P y \<longrightarrow> y = x"
  shows "length (filter P xs) = 1"
proof -
  have "set (filter P xs) = {y \<in> set xs. P y}" by simp
  also have "\<dots> = {x}" using assms(2-4) by blast
  finally have s: "set (filter P xs) = {x}" .
  have "distinct (filter P xs)" using assms(1) by simp
  then have "card (set (filter P xs)) = length (filter P xs)" by (rule distinct_card)
  then show ?thesis unfolding s by simp
qed

lemma set_grid:
  "set (grid W H S T) = {tile_at W H S T i j | i j. i < tiles_across W T \<and> j < tiles_across H T}"
  unfolding grid_def by auto blast

lemma tile_at_inj:
  assumes "0 < T" "tile_at W H S T i j = tile_at W H S T i' j'"
  shows "i = i' \<and> j = j'"
proof -
  from assms(2) have "int i * T = int i' * T" "int j * T = int j' * T"
    by (simp_all add: tile_at_def mkTile_def)
  then show ?thesis using assms(1) by simp
qed

lemma distinct_grid:
  assumes T: "0 < T"
  shows "distinct (grid W H S T)"
  unfolding grid_def
proof (rule distinct_concat_map)
  show "distinct [0 ..< tiles_across H T]" by simp
  show "\<forall>j \<in> set [0 ..< tiles_across H T].
          distinct (map (\<lambda>i. tile_at W H S T i j) [0 ..< tiles_across W T])"
    using tile_at_inj[OF T] by (auto simp: distinct_map inj_on_def)
  show "\<forall>j \<in> set [0 ..< tiles_across H T]. \<forall>k \<in> set [0 ..< tiles_across H T]. j \<noteq> k \<longrightarrow>
          set (map (\<lambda>i. tile_at W H S T i j) [0 ..< tiles_across W T]) \<inter>
          set (map (\<lambda>i. tile_at W H S T i k) [0 ..< tiles_across W T]) = {}"
    using tile_at_inj[OF T] by fastforce
qed

lemma in_tile_at:
  assumes T: "0 < T" and i: "i < tiles_across W T" and j: "j < tiles_across H T"
  shows "in_tile (tile_at W H S T i j) (px, py) \<longleftrightarrow>
           0 \<le> px \<and> px < W \<and> 0 \<le> py \<and> py < H \<and> px div T = int i \<and> py div T = int j"
proof -
  have a: "\<And>V k p. k < tiles_across V T \<Longrightarrow>
      (int k * T \<le> p \<and> p < int k * T + min T (V - int k * T)) \<longleftrightarrow>
      (0 \<le> p \<and> p < V \<and> p div T = int k)"
  proof -
    fix V k and p :: int
    assume k: "k < tiles_across V T"
    have kV: "int k * T < V" using tiles_across_bounds(2)[OF T k] .
    have d: "p div T * T + p mod T = p" by simp
    have m: "0 \<le> p mod T" "p mod T < T" using T by simp_all
    show "(int k * T \<le> p \<and> p < int k * T + min T (V - int k * T)) \<longleftrightarrow>
      (0 \<le> p \<and> p < V \<and> p div T = int k)"
    proof
      assume l: "int k * T \<le> p \<and> p < int k * T + min T (V - int k * T)"
      then have p: "int k * T \<le> p" "p < int k * T + T" "p < V" by auto
      have "0 \<le> int k * T" using T by simp
      with p have p0: "0 \<le> p" by linarith
      have e: "p = T * int k + (p - int k * T)" by (simp add: algebra_simps)
      have "0 \<le> p - int k * T" "p - int k * T < T" using p by simp_all
      with e have "p div T = int k" by (rule int_div_pos_eq)
      with p0 p show "0 \<le> p \<and> p < V \<and> p div T = int k" by simp
    next
      assume r: "0 \<le> p \<and> p < V \<and> p div T = int k"
      then have "int k * T + p mod T = p" using d by simp
      with m r show "int k * T \<le> p \<and> p < int k * T + min T (V - int k * T)" by auto
    qed
  qed
  have "in_tile (tile_at W H S T i j) (px, py) \<longleftrightarrow>
        (int i * T \<le> px \<and> px < int i * T + min T (W - int i * T)) \<and>
        (int j * T \<le> py \<and> py < int j * T + min T (H - int j * T))"
    by (simp add: in_tile_def tile_at_def mkTile_def)
  also have "\<dots> \<longleftrightarrow> (0 \<le> px \<and> px < W \<and> px div T = int i) \<and>
                         (0 \<le> py \<and> py < H \<and> py div T = int j)"
    unfolding a[OF i, of px] a[OF j, of py] ..
  finally show ?thesis by blast
qed

lemma pixel_tile_index:
  assumes T: "0 < T" and p: "0 \<le> p" "p < V"
  shows "nat (p div T) < tiles_across V T" and "int (nat (p div T)) = p div T"
proof -
  have nn: "0 \<le> p div T" using T p by (simp add: pos_imp_zdiv_nonneg_iff)
  then show "int (nat (p div T)) = p div T" by simp
  have "p \<le> V - 1" using p by simp
  then have "p div T \<le> (V - 1) div T" using T by (simp add: zdiv_mono1)
  then show "nat (p div T) < tiles_across V T"
    using nn p by (simp add: tiles_across_def)
qed

text \<open>
  Claim C4 says that \<open>create_tiles\<close> produces an exact cover for every image size and
  every positive tile size. The loop counters are C++ \<open>int\<close>s, and the increment
  \<open>x += tile_size\<close> runs once more after the last tile of a row. For an image
  2147483647 pixels wide and tiles of 1073741824 pixels the second increment computes
  2147483648, which overflows: the behaviour is undefined and no tile list results.
\<close>

theorem create_tiles_overflow_counterexample:
  "create_tiles 2147483647 1 1 1073741824 = None"
proof -
  have x2: "\<And>tiles. create_tiles_x 2147483647 1 1 1073741824 0 1073741824 tiles = None"
    by (subst create_tiles_x.simps)
       (simp add: int_add_def int_sub_def INT_MAX_def INT_MIN_def)
  have x1: "create_tiles_x 2147483647 1 1 1073741824 0 0 [] = None"
    by (subst create_tiles_x.simps)
       (simp add: x2 int_add_def int_sub_def INT_MAX_def INT_MIN_def)
  show ?thesis
    unfolding create_tiles_def
    by (subst create_tiles_y.simps) (simp add: x1)
qed

text \<open>
  Claim C4, amended. For every positive tile size and every image whose width and
  height, rounded up to whole tiles, do not exceed \<open>INT_MAX\<close>, \<open>create_tiles\<close> returns a
  list of tiles such that every pixel of the image lies in exactly one tile of the list;
  every tile lies inside the image, is not empty, has the width
  \<open>min(tile_size, image_width - x_start)\<close> and the height
  \<open>min(tile_size, image_height - y_start)\<close> (the last tile of a row or column is
  clipped), and carries the given sample count; no two tiles of the list share a pixel.
\<close>

theorem create_tiles_exact_cover:
  assumes T: "0 < tile_size"
    and W: "rounded_up image_width tile_size \<le> INT_MAX"
    and H: "rounded_up image_height tile_size \<le> INT_MAX"
  shows "\<exists>tiles. create_tiles image_width image_height samples tile_size = Some tiles \<and>
     (\<forall>px py. 0 \<le> px \<and> px < image_width \<and> 0 \<le> py \<and> py < image_height \<longrightarrow>
         length (filter (\<lambda>t. in_tile t (px, py)) tiles) = 1) \<and>
     (\<forall>t \<in> set tiles.
         0 \<le> x_start t \<and> 0 < width t \<and> x_start t + width t \<le> image_width \<and>
         0 \<le> y_start t \<and> 0 < height t \<and> y_start t + height t \<le> image_height \<and>
         width t = min tile_size (image_width - x_start t) \<and>
         height t = min tile_size (image_height - y_start t) \<and>
         samples_per_pixel t = samples) \<and>
     (\<forall>i j. i < j \<and> j < length tiles \<longrightarrow>
         \<not> (\<exists>p. in_tile (tiles ! i) p \<and> in_tile (tiles ! j) p))"
proof -
  let ?g = "grid image_width image_height samples tile_size"
  let ?at = "tile_at image_width image_height samples tile_size"
  let ?n = "tiles_across image_width tile_size"
  let ?m = "tiles_across image_height tile_size"
  have g: "create_tiles image_width image_height samples tile_size = Some ?g"
    unfolding grid_def by (rule create_tiles_grid[OF T W H])
  have d: "distinct ?g" by (rule distinct_grid[OF T])
  have uniq: "\<And>t u p. t \<in> set ?g \<Longrightarrow> u \<in> set ?g \<Longrightarrow> in_tile t p \<Longrightarrow> in_tile u p \<Longrightarrow> t = u"
  proof -
    fix t u p assume tu: "t \<in> set ?g" "u \<in> set ?g" and p: "in_tile t p" "in_tile u p"
    from tu obtain i j i' j' where
      t: "t = ?at i j" "i < ?n" "j < ?m" and u: "u = ?at i' j'" "i' < ?n" "j' < ?m"
      unfolding set_grid by blast
    obtain px py where pp: "p = (px, py)" by (cases p)
    from p have "px div tile_size = int i \<and> py div tile_size = int j"
      "px div tile_size = int i' \<and> py div tile_size = int j'"
      unfolding pp t(1) u(1) in_tile_at[OF T t(2,3)] in_tile_at[OF T u(2,3)] by simp_all
    then have "i = i'" "j = j'" by simp_all
    then show "t = u" using t(1) u(1) by simp
  qed
  have c1: "\<forall>px py. 0 \<le> px \<and> px < image_width \<and> 0 \<le> py \<and> py < image_height \<longrightarrow>
         length (filter (\<lambda>t. in_tile t (px, py)) ?g) = 1"
  proof (intro allI impI)
    fix px py assume b: "0 \<le> px \<and> px < image_width \<and> 0 \<le> py \<and> py < image_height"
    let ?i = "nat (px div tile_size)" and ?j = "nat (py div tile_size)"
    have i: "?i < ?n" "int ?i = px div tile_size"
      using pixel_tile_index[OF T, of px image_width] b by simp_all
    have j: "?j < ?m" "int ?j = py div tile_size"
      using pixel_tile_index[OF T, of py image_height] b by simp_all
    have mem: "?at ?i ?j \<in> set ?g" unfolding set_grid using i(1) j(1) by blast
    have inn: "in_tile (?at ?i ?j) (px, py)"
      unfolding in_tile_at[OF T i(1) j(1)] using b i(2) j(2) by simp
    have "\<forall>y \<in> set ?g. in_tile y (px, py) \<longrightarrow> y = ?at ?i ?j"
      using uniq[OF _ mem _ inn] by blast
    with d mem inn show "length (filter (\<lambda>t. in_tile t (px, py)) ?g) = 1"
      by (rule filter_unique_length)
  qed
  have c2: "\<forall>t \<in> set ?g.
         0 \<le> x_start t \<and> 0 < width t \<and> x_start t + width t \<le> image_width \<and>
         0 \<le> y_start t \<and> 0 < height t \<and> y_start t + height t \<le> image_height \<and>
         width t = min tile_size (image_width - x_start t) \<and>
         height t = min tile_size (image_height - y_start t) \<and>
         samples_per_pixel t = samples"
  proof
    fix t assume "t \<in> set ?g"
    then obtain i j where t: "t = ?at i j" "i < ?n" "j < ?m"
      unfolding set_grid by blast
    have x: "int i * tile_size < image_width" "0 \<le> int i * tile_size"
      using tiles_across_bounds(2)[OF T t(2)] T by simp_all
    have y: "int j * tile_size < image_height" "0 \<le> int j * tile_size"
      using tiles_across_bounds(2)[OF T t(3)] T by simp_all
    show "0 \<le> x_start t \<and> 0 < width t \<and> x_start t + width t \<le> image_width \<and>
         0 \<le> y_start t \<and> 0 < height t \<and> y_start t + height t \<le> image_height \<and>
         width t = min tile_size (image_width - x_start t) \<and>
         height t = min tile_size (image_height - y_start t) \<and>
         samples_per_pixel t = samples"
      using x y T unfolding t(1) tile_at_def mkTile_def by (simp add: min_def)
  qed
  have c3: "\<forall>i j. i < j \<and> j < length ?g \<longrightarrow>
         \<not> (\<exists>p. in_tile (?g ! i) p \<and> in_tile (?g ! j) p)"
  proof (intro allI impI notI)
    fix i j assume ij: "i < j \<and> j < length ?g" and ex: "\<exists>p. in_tile (?g ! i) p \<and> in_tile (?g ! j) p"
    then obtain p where p: "in_tile (?g ! i) p" "in_tile (?g ! j) p" by blast
    have "?g ! i \<in> set ?g" "?g ! j \<in> set ?g" using ij by simp_all
    then have "?g ! i = ?g ! j" using p by (rule uniq)
    with d ij show False by (simp add: nth_eq_iff_index_eq)
  qed
  show ?thesis using g c1 c2 c3 by blast
qed

lemma create_tiles_5_3:
  "create_tiles 5 3 1 2 =
     Some [mkTile 0 0 2 2 1, mkTile 2 0 2 2 1, mkTile 4 0 1 2 1,
           mkTile 0 2 2 1 1, mkTile 2 2 2 1 1, mkTile 4 2 1 1 1]"
proof -
  have n: "tiles_across 5 2 = 3" "tiles_across 3 2 = 2" by (simp_all add: tiles_across_def)
  have u: "[0..<3] = [0, 1, 2]" "[0..<2] = [0, 1]" by (simp_all add: upt_rec)
  show ?thesis
    by (subst create_tiles_grid) (simp_all add: rounded_up_def n u INT_MAX_def tile_at_def)
qed

theorem create_tiles_exact_cover_witness:
  "(0::int) < 2 \<and> rounded_up 5 2 \<le> INT_MAX \<and> rounded_up 3 2 \<le> INT_MAX \<and>
   create_tiles 5 3 1 2 =
     Some [mkTile 0 0 2 2 1, mkTile 2 0 2 2 1, mkTile 4 0 1 2 1,
           mkTile 0 2 2 1 1, mkTile 2 2 2 1 1, mkTile 4 2 1 1 1] \<and>
   (\<exists>tiles. create_tiles 5 3 1 2 = Some tiles \<and>
      length (filter (\<lambda>t. in_tile t (4, 2)) tiles) = 1 \<and>
      (\<forall>t \<in> set tiles. samples_per_pixel t = 1 \<and> x_start t + width t \<le> 5))"
proof -
  have a: "(0::int) < 2" by simp
  have b: "rounded_up 5 2 \<le> INT_MAX" by (simp add: rounded_up_def tiles_across_def INT_MAX_def)
  have c: "rounded_up 3 2 \<le> INT_MAX" by (simp add: rounded_up_def tiles_across_def INT_MAX_def)
  from create_tiles_exact_cover[OF a b c, of 1] obtain tiles where
    t: "create_tiles 5 3 1 2 = Some tiles"
       "\<forall>px py. 0 \<le> px \<and> px < 5 \<and> 0 \<le> py \<and> py < 3 \<longrightarrow>
         length (filter (\<lambda>t. in_tile t (px, py)) tiles) = 1"
       "\<forall>t \<in> set tiles. samples_per_pixel t = 1 \<and> x_start t + width t \<le> 5"
    by blast
  from t(2) have "length (filter (\<lambda>t. in_tile t (4, 2)) tiles) = 1" by simp
  with a b c t(1) t(3) create_tiles_5_3 show ?thesis by blast
qed

section \<open>The pixels of a finished tile\<close>

text \<open>Colours and NaN under the operations that the renderer applies to them.\<close>

lemma ieee_add_NaN [simp]: "ieee_add x NaN = NaN"
  by (cases x) simp_all

lemma ieee_mul_NaN [simp]: "ieee_mul x NaN = NaN"
  by (cases x) simp_all



































































section \<open>Stopping a tile\<close>

lemma pixel_progressive_Returned:
  assumes "pixel_progressive ctl sc tile i j w = Some (Returned w')"
  shows "stopped_at ctl sc tile i j w' \<and> w_pixels w' = w_pixels w"
proof -
  from assms obtain c where c: "wait_while_paused ctl (w_clock w) = Some c"
    unfolding pixel_progressive_def by (auto split: option.splits)
  have s: "stop_at ctl c"
  proof (rule ccontr)
    assume "\<not> stop_at ctl c"
    with assms c show False
      unfolding pixel_progressive_def by (auto simp: Let_def split: option.splits)
  qed
  with assms c have w': "w' = w\<lparr>w_clock := c + 1\<rparr>"
    unfolding pixel_progressive_def by simp
  show ?thesis
    unfolding stopped_at_def using assms c s w' by auto
qed

lemma sample_loop_frame:
  "sample_loop sc md i j n s col w = Some (col', w') \<Longrightarrow>
   w_pixels w' = w_pixels w \<and> w_clock w' = w_clock w \<and> w_display w' = w_display w \<and>
   w_completed_pixels w' = w_completed_pixels w"
proof (induction sc md i j n s col w arbitrary: col' w' rule: sample_loop.induct)
  case (1 sc md i j n s col w)
  show ?case
  proof (cases "s < n")
    case False
    with "1.prems" have "col' = col" "w' = w" by (subst (asm) sample_loop.simps, simp)+
    then show ?thesis by simp
  next
    case True
    from "1.prems" True obtain d1 g1 d2 g2 ray rs' c g3 where
      r1: "sc_random sc (w_fast w) = Some (d1, g1)" and r2: "sc_random sc g1 = Some (d2, g2)"
      and gr: "GetRay (sc_camera sc) ((real_of_int i + d1) / real_of_int (sc_nx sc))
                 ((real_of_int j + d2) / real_of_int (sc_ny sc)) (w_rand w) = Some (ray, rs')"
      and co: "ColorOptimized (sc_random sc) (sc_junk sc) g2 ray (sc_world sc) 0 md = Some (c, g3)"
      and rest: "sample_loop sc md i j n (s + 1) (vadd col c)
                   (w\<lparr>w_fast := g3, w_rand := rs', w_rays_traced := w_rays_traced w + 1\<rparr>)
                 = Some (col', w')"
      by (subst (asm) sample_loop.simps) (auto simp: Let_def split: option.splits)
    from "1.IH"[OF True r1 refl r2 refl refl refl gr refl co refl rest]
    show ?thesis by simp
  qed
qed

lemma pixel_progressive_Continue:
  assumes "pixel_progressive ctl sc tile i j w = Some (Continue w')"
  shows "\<exists>v. 0 \<le> pixel_index (sc_nx sc) i j \<and>
             pixel_index (sc_nx sc) i j < int (length (w_pixels w)) \<and>
             w_pixels w' = (w_pixels w)[nat (pixel_index (sc_nx sc) i j) := v]"
proof -
  from assms obtain c col w1 pixels' where
    c: "wait_while_paused ctl (w_clock w) = Some c" "\<not> stop_at ctl c"
    and sl: "sample_loop sc 8 i j (samples_per_pixel tile) 0 (V3 0 0 0) (w\<lparr>w_clock := c + 1\<rparr>)
             = Some (col, w1)"
    and st: "store_pixel (sc_nx sc) i j (pixel_value col (samples_per_pixel tile)) (w_pixels w1)
             = Some pixels'"
    and w': "w_pixels w' = pixels'"
    unfolding pixel_progressive_def
    by (auto simp: Let_def split: option.splits if_splits)
  from sample_loop_frame[OF sl] have px: "w_pixels w1 = w_pixels w" by simp
  from st show ?thesis
    unfolding store_pixel_def px w' by (auto simp: Let_def split: if_splits)
qed

lemma row_done_empty: "hi \<le> lo \<Longrightarrow> w_pixels w' = w_pixels w \<Longrightarrow> row_done ctl sc tile j lo hi w w'"
  unfolding row_done_def by auto

lemma row_done_step:
  assumes p: "pixel_progressive ctl sc tile i j w = Some (Continue w1)"
    and r: "row_done ctl sc tile j (i + 1) hi w1 w'"
    and ih: "i < hi"
  shows "row_done ctl sc tile j i hi w w'"
proof -
  let ?idx = "\<lambda>i'. pixel_index (sc_nx sc) i' j"
  from pixel_progressive_Continue[OF p] obtain v where
    v: "0 \<le> ?idx i" "?idx i < int (length (w_pixels w))"
       "w_pixels w1 = (w_pixels w)[nat (?idx i) := v]"
    by blast
  from r have r1: "length (w_pixels w') = length (w_pixels w1)"
    and r2: "\<And>k. (\<forall>i'. i + 1 \<le> i' \<and> i' < hi \<longrightarrow> k \<noteq> nat (?idx i'))
               \<Longrightarrow> w_pixels w' ! k = w_pixels w1 ! k"
    and r3: "\<And>i'. i + 1 \<le> i' \<and> i' < hi \<Longrightarrow> written ctl sc tile i' j w'"
    unfolding row_done_def by blast+
  have len: "length (w_pixels w') = length (w_pixels w)" using r1 v(3) by simp
  have "\<forall>i'. i + 1 \<le> i' \<and> i' < hi \<longrightarrow> nat (?idx i) \<noteq> nat (?idx i')"
    using v(1) by (auto simp: pixel_index_def)
  then have here: "w_pixels w' ! nat (?idx i) = w_pixels w1 ! nat (?idx i)" by (rule r2)
  have wi: "written ctl sc tile i j w'"
    unfolding written_def using p v(1,2) here len by auto
  have b: "\<forall>k. (\<forall>i'. i \<le> i' \<and> i' < hi \<longrightarrow> k \<noteq> nat (?idx i'))
                  \<longrightarrow> w_pixels w' ! k = w_pixels w ! k"
  proof (intro allI impI)
    fix k assume k: "\<forall>i'. i \<le> i' \<and> i' < hi \<longrightarrow> k \<noteq> nat (?idx i')"
    have "w_pixels w' ! k = w_pixels w1 ! k" using k by (intro r2) auto
    moreover have "k \<noteq> nat (?idx i)" using k ih by auto
    ultimately show "w_pixels w' ! k = w_pixels w ! k" by (simp add: v(3))
  qed
  have c: "\<forall>i'. i \<le> i' \<and> i' < hi \<longrightarrow> written ctl sc tile i' j w'"
  proof (intro allI impI)
    fix i' assume i': "i \<le> i' \<and> i' < hi"
    show "written ctl sc tile i' j w'"
    proof (cases "i' = i")
      case True then show ?thesis using wi by simp
    next
      case False
      with i' have "i + 1 \<le> i' \<and> i' < hi" by simp
      then show ?thesis by (rule r3)
    qed
  qed
  show ?thesis unfolding row_done_def using len b c by blast
qed

lemma row_progressive_inv:
  assumes "row_progressive ctl sc tile j i w = Some r"
  shows "case r of
           Continue w' \<Rightarrow> row_done ctl sc tile j i (x_start tile + width tile) w w'
         | Returned w' \<Rightarrow>
             (\<exists>is. i \<le> is \<and> is < x_start tile + width tile \<and>
                   stopped_at ctl sc tile is j w' \<and> row_done ctl sc tile j i is w w')"
  using assms
proof (induction ctl sc tile j i w arbitrary: r rule: row_progressive.induct)
  case (1 ctl sc tile j i w)
  let ?xe = "x_start tile + width tile"
  show ?case
  proof (cases "i < ?xe")
    case False
    with "1.prems" have "r = Continue w" by (subst (asm) row_progressive.simps) simp
    then show ?thesis using False by (simp add: row_done_empty)
  next
    case True
    from "1.prems" True obtain q where q: "pixel_progressive ctl sc tile i j w = Some q"
      by (subst (asm) row_progressive.simps) (auto split: option.splits)
    show ?thesis
    proof (cases q)
      case (Returned w')
      with "1.prems" True q have r: "r = Returned w'"
        by (subst (asm) row_progressive.simps) simp
      from pixel_progressive_Returned[OF q[unfolded Returned]]
      have "stopped_at ctl sc tile i j w'" "w_pixels w' = w_pixels w" by simp_all
      then show ?thesis unfolding r using True by (auto simp: row_done_empty)
    next
      case (Continue w1)
      with "1.prems" True q have rest: "row_progressive ctl sc tile j (i + 1) w1 = Some r"
        by (subst (asm) row_progressive.simps) simp
      note ih = "1.IH"[OF True q Continue rest]
      note p = q[unfolded Continue]
      show ?thesis
      proof (cases r)
        case (Continue w')
        with ih have "row_done ctl sc tile j (i + 1) ?xe w1 w'" by simp
        from row_done_step[OF p this True] show ?thesis unfolding Continue by simp
      next
        case (Returned w')
        with ih obtain "is" where s: "i + 1 \<le> is" "is < ?xe" "stopped_at ctl sc tile is j w'"
          "row_done ctl sc tile j (i + 1) is w1 w'" by auto
        have lt: "i < is" using s(1) by simp
        have le: "i \<le> is" using s(1) by simp
        from row_done_step[OF p s(4) lt] have "row_done ctl sc tile j i is w w'" .
        with le s(2,3) show ?thesis unfolding Returned by auto
      qed
    qed
  qed
qed

lemma pixel_index_later:
  assumes "0 \<le> xs" "xe \<le> nx" "xs \<le> i" "i < xe" "xs \<le> i'" "j < j'"
  shows "pixel_index nx i j < pixel_index nx i' j'"
proof -
  have nx: "0 < nx" using assms by linarith
  have "j + 1 \<le> j'" using assms(6) by simp
  then have "(j + 1) * nx \<le> j' * nx" using nx by (simp add: mult_right_mono)
  then have "j * nx + nx \<le> j' * nx" by (simp add: distrib_right)
  moreover have "i < nx" "0 \<le> i'" using assms by linarith+
  ultimately show ?thesis unfolding pixel_index_def by linarith
qed

lemma region_done_row:
  "row_done ctl sc tile j (x_start tile) is w w' \<Longrightarrow> region_done ctl sc tile j j is w w'"
  unfolding row_done_def region_done_def before_stop_def by auto

lemma region_done_empty:
  "ye \<le> j \<Longrightarrow> region_done ctl sc tile j ye (x_start tile) w w"
  unfolding region_done_def before_stop_def by auto

lemma region_done_step:
  assumes row: "row_done ctl sc tile j (x_start tile) (x_start tile + width tile) w w1"
    and reg: "region_done ctl sc tile (j + 1) js is w1 w'"
    and js: "j + 1 \<le> js"
    and cols: "0 \<le> x_start tile" "x_start tile + width tile \<le> sc_nx sc"
  shows "region_done ctl sc tile j js is w w'"
proof -
  let ?xs = "x_start tile" and ?xe = "x_start tile + width tile"
  let ?idx = "\<lambda>i' j'. pixel_index (sc_nx sc) i' j'"
  have split: "\<And>i' j'. before_stop tile j js is i' j' \<longleftrightarrow>
        (j' = j \<and> ?xs \<le> i' \<and> i' < ?xe) \<or> before_stop tile (j + 1) js is i' j'"
    using js unfolding before_stop_def by auto
  from row have r1: "length (w_pixels w1) = length (w_pixels w)"
    and r2: "\<And>k. (\<forall>i'. ?xs \<le> i' \<and> i' < ?xe \<longrightarrow> k \<noteq> nat (?idx i' j))
               \<Longrightarrow> w_pixels w1 ! k = w_pixels w ! k"
    and r3: "\<And>i'. ?xs \<le> i' \<and> i' < ?xe \<Longrightarrow> written ctl sc tile i' j w1"
    unfolding row_done_def by blast+
  from reg have g1: "length (w_pixels w') = length (w_pixels w1)"
    and g2: "\<And>k. (\<forall>i' j'. before_stop tile (j + 1) js is i' j' \<longrightarrow> k \<noteq> nat (?idx i' j'))
               \<Longrightarrow> w_pixels w' ! k = w_pixels w1 ! k"
    and g3: "\<And>i' j'. before_stop tile (j + 1) js is i' j' \<Longrightarrow> written ctl sc tile i' j' w'"
    unfolding region_done_def by blast+
  have a: "length (w_pixels w') = length (w_pixels w)" using g1 r1 by simp
  have b: "\<forall>k. (\<forall>i' j'. before_stop tile j js is i' j' \<longrightarrow> k \<noteq> nat (?idx i' j'))
              \<longrightarrow> w_pixels w' ! k = w_pixels w ! k"
  proof (intro allI impI)
    fix k assume k: "\<forall>i' j'. before_stop tile j js is i' j' \<longrightarrow> k \<noteq> nat (?idx i' j')"
    have "w_pixels w' ! k = w_pixels w1 ! k" using k split by (intro g2) blast
    moreover have "w_pixels w1 ! k = w_pixels w ! k" using k split by (intro r2) blast
    ultimately show "w_pixels w' ! k = w_pixels w ! k" by simp
  qed
  have c: "\<forall>i' j'. before_stop tile j js is i' j' \<longrightarrow> written ctl sc tile i' j' w'"
  proof (intro allI impI)
    fix i' j' assume p: "before_stop tile j js is i' j'"
    show "written ctl sc tile i' j' w'"
    proof (cases "before_stop tile (j + 1) js is i' j'")
      case True then show ?thesis by (rule g3)
    next
      case False
      with p split have here: "j' = j" "?xs \<le> i' \<and> i' < ?xe" by blast+
      from r3[OF here(2)] obtain wa wb where
        wr: "pixel_progressive ctl sc tile i' j wa = Some (Continue wb)"
            "0 \<le> ?idx i' j" "?idx i' j < int (length (w_pixels w1))"
            "w_pixels w1 ! nat (?idx i' j) = w_pixels wb ! nat (?idx i' j)"
        unfolding written_def by blast
      have "\<forall>i'' j''. before_stop tile (j + 1) js is i'' j'' \<longrightarrow>
               nat (?idx i' j) \<noteq> nat (?idx i'' j'')"
      proof (intro allI impI)
        fix i'' j'' assume q: "before_stop tile (j + 1) js is i'' j''"
        then have "?xs \<le> i''" "j < j''" using js unfolding before_stop_def by auto
        then have "?idx i' j < ?idx i'' j''"
          using pixel_index_later[OF cols, of i' i'' j j''] here(2) by simp
        with wr(2) show "nat (?idx i' j) \<noteq> nat (?idx i'' j'')" by simp
      qed
      then have "w_pixels w' ! nat (?idx i' j) = w_pixels w1 ! nat (?idx i' j)" by (rule g2)
      then show ?thesis
        unfolding written_def here(1) using wr g1 by auto
    qed
  qed
  show ?thesis unfolding region_done_def using a b c by blast
qed

lemma rows_progressive_inv:
  assumes "rows_progressive ctl sc tile j w = Some r"
    and "0 \<le> x_start tile" and "x_start tile + width tile \<le> sc_nx sc"
  shows "case r of
           Continue w' \<Rightarrow>
             region_done ctl sc tile j (max j (y_start tile + height tile)) (x_start tile) w w'
         | Returned w' \<Rightarrow>
             (\<exists>js is. j \<le> js \<and> js < y_start tile + height tile \<and>
                      x_start tile \<le> is \<and> is < x_start tile + width tile \<and>
                      stopped_at ctl sc tile is js w' \<and> region_done ctl sc tile j js is w w')"
  using assms
proof (induction ctl sc tile j w arbitrary: r rule: rows_progressive.induct)
  case (1 ctl sc tile j w)
  let ?xs = "x_start tile" and ?xe = "x_start tile + width tile"
  let ?ye = "y_start tile + height tile"
  show ?case
  proof (cases "j < ?ye")
    case False
    with "1.prems"(1) have "r = Continue w" by (subst (asm) rows_progressive.simps) simp
    moreover have "max j ?ye = j" using False by simp
    ultimately show ?thesis by (simp add: region_done_empty)
  next
    case True
    from "1.prems"(1) True obtain q where q: "row_progressive ctl sc tile j ?xs w = Some q"
      by (subst (asm) rows_progressive.simps) (auto split: option.splits)
    note rq = row_progressive_inv[OF q]
    show ?thesis
    proof (cases q)
      case (Returned w')
      with "1.prems"(1) True q have r: "r = Returned w'"
        by (subst (asm) rows_progressive.simps) simp
      from rq Returned obtain "is" where s: "?xs \<le> is" "is < ?xe" "stopped_at ctl sc tile is j w'"
        "row_done ctl sc tile j ?xs is w w'" by auto
      from region_done_row[OF s(4)] have "region_done ctl sc tile j j is w w'" .
      with s True show ?thesis unfolding r by auto
    next
      case (Continue w1)
      with "1.prems"(1) True q have rest: "rows_progressive ctl sc tile (j + 1) w1 = Some r"
        by (subst (asm) rows_progressive.simps) simp
      from rq Continue have row: "row_done ctl sc tile j ?xs ?xe w w1" by simp
      note ih = "1.IH"[OF True q Continue rest "1.prems"(2,3)]
      show ?thesis
      proof (cases r)
        case (Continue w')
        with ih have g: "region_done ctl sc tile (j + 1) (max (j + 1) ?ye) ?xs w1 w'" by simp
        have m: "max (j + 1) ?ye = ?ye" "max j ?ye = ?ye" using True by simp_all
        have "j + 1 \<le> ?ye" using True by simp
        from region_done_step[OF row g[unfolded m] this "1.prems"(2,3)]
        show ?thesis unfolding Continue m by simp
      next
        case (Returned w')
        with ih obtain js "is" where s: "j + 1 \<le> js" "js < ?ye" "?xs \<le> is" "is < ?xe"
          "stopped_at ctl sc tile is js w'" "region_done ctl sc tile (j + 1) js is w1 w'"
          by auto
        from region_done_step[OF row s(6) s(1) "1.prems"(2,3)]
        have "region_done ctl sc tile j js is w w'" .
        moreover have "j \<le> js" using s(1) by simp
        ultimately show ?thesis unfolding Returned using s(2-5) by auto
      qed
    qed
  qed
qed

text \<open>
  Claim C5. The worker reads the stop flag once before every pixel, after the pause
  loop. A check that reads the flag as set makes \<open>render_tile_progressive\<close> return at
  once with the state of that check. For a tile within the columns of the image: when
  the worker has returned this way at the pixel \<open>(is, js)\<close>, that pixel and every
  later pixel of the tile, in the row-major order of the loops, hold in the pixel
  buffer what they held when the tile was started, and every earlier pixel of the tile
  holds the value that was stored for it.
\<close>

theorem render_tile_progressive_stop:
  assumes "render_tile_progressive ctl sc tile w = Some (Returned w')"
    and "0 \<le> x_start tile" and "x_start tile + width tile \<le> sc_nx sc"
  shows "(\<exists>is js ws c.
     x_start tile \<le> is \<and> is < x_start tile + width tile \<and>
     y_start tile \<le> js \<and> js < y_start tile + height tile \<and>
     pixel_progressive ctl sc tile is js ws = Some (Returned w') \<and>
     wait_while_paused ctl (w_clock ws) = Some c \<and> stop_at ctl c \<and>
     w' = ws\<lparr>w_clock := c + 1\<rparr> \<and>
     length (w_pixels w') = length (w_pixels w) \<and>
     (\<forall>i j. x_start tile \<le> i \<and> i < x_start tile + width tile \<and>
            y_start tile \<le> j \<and> j < y_start tile + height tile \<and>
            (js < j \<or> (j = js \<and> is \<le> i)) \<longrightarrow>
            w_pixels w' ! nat (pixel_index (sc_nx sc) i j) =
            w_pixels w ! nat (pixel_index (sc_nx sc) i j)) \<and>
     (\<forall>i j. x_start tile \<le> i \<and> i < x_start tile + width tile \<and>
            y_start tile \<le> j \<and> j < y_start tile + height tile \<and>
            (j < js \<or> (j = js \<and> i < is)) \<longrightarrow>
            (\<exists>wa wb. pixel_progressive ctl sc tile i j wa = Some (Continue wb) \<and>
                     w_pixels w' ! nat (pixel_index (sc_nx sc) i j) =
                     w_pixels wb ! nat (pixel_index (sc_nx sc) i j)))) \<and>
     (\<forall>i j wx c. wait_while_paused ctl (w_clock wx) = Some c \<and> stop_at ctl c \<longrightarrow>
        pixel_progressive ctl sc tile i j wx = Some (Returned (wx\<lparr>w_clock := c + 1\<rparr>)))"
proof -
  let ?xs = "x_start tile" and ?xe = "x_start tile + width tile"
  let ?ys = "y_start tile" and ?ye = "y_start tile + height tile"
  let ?idx = "\<lambda>i j. pixel_index (sc_nx sc) i j"
  from assms(1) have r: "rows_progressive ctl sc tile ?ys w = Some (Returned w')"
    by (simp add: render_tile_progressive_def)
  from rows_progressive_inv[OF r assms(2,3)] obtain js "is" where
    s: "?ys \<le> js" "js < ?ye" "?xs \<le> is" "is < ?xe" "stopped_at ctl sc tile is js w'"
      "region_done ctl sc tile ?ys js is w w'"
    by auto
  from s(5) obtain ws c where
    st: "pixel_progressive ctl sc tile is js ws = Some (Returned w')"
        "wait_while_paused ctl (w_clock ws) = Some c" "stop_at ctl c"
        "w' = ws\<lparr>w_clock := c + 1\<rparr>"
    unfolding stopped_at_def by blast
  from s(6) have g1: "length (w_pixels w') = length (w_pixels w)"
    and g2: "\<And>k. (\<forall>i' j'. before_stop tile ?ys js is i' j' \<longrightarrow> k \<noteq> nat (?idx i' j'))
               \<Longrightarrow> w_pixels w' ! k = w_pixels w ! k"
    and g3: "\<And>i' j'. before_stop tile ?ys js is i' j' \<Longrightarrow> written ctl sc tile i' j' w'"
    unfolding region_done_def by blast+
  have later: "\<forall>i j. ?xs \<le> i \<and> i < ?xe \<and> ?ys \<le> j \<and> j < ?ye \<and>
            (js < j \<or> (j = js \<and> is \<le> i)) \<longrightarrow>
            w_pixels w' ! nat (?idx i j) = w_pixels w ! nat (?idx i j)"
  proof (intro allI impI)
    fix i j assume p: "?xs \<le> i \<and> i < ?xe \<and> ?ys \<le> j \<and> j < ?ye \<and>
            (js < j \<or> (j = js \<and> is \<le> i))"
    have "\<forall>i' j'. before_stop tile ?ys js is i' j' \<longrightarrow> nat (?idx i j) \<noteq> nat (?idx i' j')"
    proof (intro allI impI)
      fix i' j' assume b: "before_stop tile ?ys js is i' j'"
      from g3[OF b] have nn: "0 \<le> ?idx i' j'" unfolding written_def by blast
      have "?idx i' j' < ?idx i j"
      proof (cases "j' < j")
        case True
        have "?xs \<le> i' \<and> i' < ?xe" using b s(4) unfolding before_stop_def by auto
        then show ?thesis
          using pixel_index_later[OF assms(2,3), of i' i j' j] True p by simp
      next
        case False
        with b p have "j' = j" "i' < i" unfolding before_stop_def by auto
        then show ?thesis by (simp add: pixel_index_def)
      qed
      with nn show "nat (?idx i j) \<noteq> nat (?idx i' j')" by simp
    qed
    then show "w_pixels w' ! nat (?idx i j) = w_pixels w ! nat (?idx i j)" by (rule g2)
  qed
  have earlier: "\<forall>i j. ?xs \<le> i \<and> i < ?xe \<and> ?ys \<le> j \<and> j < ?ye \<and>
            (j < js \<or> (j = js \<and> i < is)) \<longrightarrow>
            (\<exists>wa wb. pixel_progressive ctl sc tile i j wa = Some (Continue wb) \<and>
                     w_pixels w' ! nat (?idx i j) = w_pixels wb ! nat (?idx i j))"
  proof (intro allI impI)
    fix i j assume p: "?xs \<le> i \<and> i < ?xe \<and> ?ys \<le> j \<and> j < ?ye \<and>
            (j < js \<or> (j = js \<and> i < is))"
    then have "before_stop tile ?ys js is i j" unfolding before_stop_def by auto
    from g3[OF this] show "\<exists>wa wb. pixel_progressive ctl sc tile i j wa = Some (Continue wb) \<and>
                     w_pixels w' ! nat (?idx i j) = w_pixels wb ! nat (?idx i j)"
      unfolding written_def by blast
  qed
  have immediate: "\<forall>i j wx c. wait_while_paused ctl (w_clock wx) = Some c \<and> stop_at ctl c \<longrightarrow>
        pixel_progressive ctl sc tile i j wx = Some (Returned (wx\<lparr>w_clock := c + 1\<rparr>))"
    by (simp add: pixel_progressive_def)
  have main: "\<exists>is js ws c.
     x_start tile \<le> is \<and> is < x_start tile + width tile \<and>
     y_start tile \<le> js \<and> js < y_start tile + height tile \<and>
     pixel_progressive ctl sc tile is js ws = Some (Returned w') \<and>
     wait_while_paused ctl (w_clock ws) = Some c \<and> stop_at ctl c \<and>
     w' = ws\<lparr>w_clock := c + 1\<rparr> \<and>
     length (w_pixels w') = length (w_pixels w) \<and>
     (\<forall>i j. x_start tile \<le> i \<and> i < x_start tile + width tile \<and>
            y_start tile \<le> j \<and> j < y_start tile + height tile \<and>
            (js < j \<or> (j = js \<and> is \<le> i)) \<longrightarrow>
            w_pixels w' ! nat (pixel_index (sc_nx sc) i j) =
            w_pixels w ! nat (pixel_index (sc_nx sc) i j)) \<and>
     (\<forall>i j. x_start tile \<le> i \<and> i < x_start tile + width tile \<and>
            y_start tile \<le> j \<and> j < y_start tile + height tile \<and>
            (j < js \<or> (j = js \<and> i < is)) \<longrightarrow>
            (\<exists>wa wb. pixel_progressive ctl sc tile i j wa = Some (Continue wb) \<and>
                     w_pixels w' ! nat (pixel_index (sc_nx sc) i j) =
                     w_pixels wb ! nat (pixel_index (sc_nx sc) i j)))"
    using s(1-4) st g1 later earlier by blast
  from main immediate show ?thesis by (rule conjI)
qed

lemma GetRay_cam0_left:
  "GetRay cam0 (1/4) (1/2) [1073741824, 1073741824] = Some (mkRay (V3 0 0 0) (V3 (-1) 0 (-1)), [])"
  by (simp add: GetRay_def cam0_def rand_value_def RAND_MAX_def Let_def mkRay_def
      vsub_def smul_def vadd_def vmuls_def V3_def Dot_def)

lemma sky_left: "sky_gradient (mkRay (V3 0 0 0) (V3 (-1) 0 (-1))) = V3 (3/4) (17/20) 1"
  by (simp add: sky_gradient_def lerp_def mkRay_def Direction_def Unit_Vector_def
      Length_def vdivs_def V3_def GetY_def vadd_def smul_def)

lemma wait_ctl1: "wait_while_paused ctl1 n = Some (n + 1)"
  by (subst wait_while_paused.simps) (simp add: ctl1_def)

lemma sample_loop_worker1:
  "sample_loop sc1 8 0 0 1 0 (V3 0 0 0) (worker1\<lparr>w_clock := k\<rparr>) =
     Some (vadd (V3 0 0 0) (V3 (3/4) (17/20) 1),
           worker1\<lparr>w_clock := k, w_fast := [], w_rand := [], w_rays_traced := 1\<rparr>)"
proof -
  have co: "ColorOptimized list_random rec0 [] (mkRay (V3 0 0 0) (V3 (-1) 0 (-1)))
              (HittableList []) 0 8 = Some (V3 (3/4) (17/20) 1, [])"
    using ColorOptimized_miss[of 0 8 rec0 "HittableList []" "mkRay (V3 0 0 0) (V3 (-1) 0 (-1))"
        list_random "[]"]
    by (simp add: sky_left)
  show ?thesis
    apply (subst sample_loop.simps)
    apply (simp add: sc1_def worker1_def GetRay_cam0_left co)
    apply (subst sample_loop.simps)
    apply simp
    done
qed

lemma render_tile_progressive_worker1:
  "render_tile_progressive ctl1 sc1 tile1 worker1 = Some (Returned worker1_stopped)"
proof -
  have f: "x_start tile1 = 0" "y_start tile1 = 0" "width tile1 = 2" "height tile1 = 1"
    "samples_per_pixel tile1 = 1"
    by (simp_all add: tile1_def mkTile_def)
  have pv: "pixel_value (vadd (V3 0 0 0) (V3 (3/4) (17/20) 1)) 1 = V3 (sqrt (3/4)) (sqrt (17/20)) 1"
    by (simp add: pixel_value_def vadd_def V3_def vdiv_assign_def gamma_correct_def)
  have st: "store_pixel (sc_nx sc1) 0 0 (V3 (sqrt (3/4)) (sqrt (17/20)) 1) [V3 0 0 0, V3 0 0 0] =
            Some [V3 (sqrt (3/4)) (sqrt (17/20)) 1, V3 0 0 0]"
    by (simp add: store_pixel_def pixel_index_def sc1_def)
  have c0: "w_clock worker1 = 0" by (simp add: worker1_def)
  have s1: "\<not> stop_at ctl1 (Suc 0)" "stop_at ctl1 3" by (simp_all add: ctl1_def)
  have p0: "pixel_progressive ctl1 sc1 tile1 0 0 worker1 =
     Some (Continue (worker1_stopped\<lparr>w_clock := 2\<rparr>))"
    unfolding pixel_progressive_def wait_ctl1 c0 f
    by (simp add: s1 sample_loop_worker1 pv Let_def)
       (simp add: pv worker1_def st worker1_stopped_def)
  have p1: "pixel_progressive ctl1 sc1 tile1 1 0 (worker1_stopped\<lparr>w_clock := 2\<rparr>) =
     Some (Returned worker1_stopped)"
    unfolding pixel_progressive_def wait_ctl1
    by (simp add: s1 worker1_stopped_def)
  have row1: "row_progressive ctl1 sc1 tile1 0 1 (worker1_stopped\<lparr>w_clock := 2\<rparr>) =
     Some (Returned worker1_stopped)"
    by (subst row_progressive.simps) (simp add: f p1)
  have row0: "row_progressive ctl1 sc1 tile1 0 0 worker1 = Some (Returned worker1_stopped)"
    by (subst row_progressive.simps) (simp add: f p0 row1)
  show ?thesis
    unfolding render_tile_progressive_def f
    by (subst rows_progressive.simps) (simp add: f row0)
qed

theorem render_tile_progressive_stop_witness:
  "render_tile_progressive ctl1 sc1 tile1 worker1 = Some (Returned worker1_stopped) \<and>
   0 \<le> x_start tile1 \<and> x_start tile1 + width tile1 \<le> sc_nx sc1 \<and>
   w_pixels worker1_stopped ! 1 = w_pixels worker1 ! 1 \<and>
   w_pixels worker1_stopped ! 0 = V3 (sqrt (3/4)) (sqrt (17/20)) 1 \<and>
   (\<exists>is js ws c.
      pixel_progressive ctl1 sc1 tile1 is js ws = Some (Returned worker1_stopped) \<and>
      wait_while_paused ctl1 (w_clock ws) = Some c \<and> stop_at ctl1 c \<and>
      (\<forall>i j. x_start tile1 \<le> i \<and> i < x_start tile1 + width tile1 \<and>
            y_start tile1 \<le> j \<and> j < y_start tile1 + height tile1 \<and>
            (js < j \<or> (j = js \<and> is \<le> i)) \<longrightarrow>
            w_pixels worker1_stopped ! nat (pixel_index (sc_nx sc1) i j) =
            w_pixels worker1 ! nat (pixel_index (sc_nx sc1) i j)))"
proof -
  have h: "0 \<le> x_start tile1" "x_start tile1 + width tile1 \<le> sc_nx sc1"
    by (simp_all add: tile1_def mkTile_def sc1_def)
  have v: "w_pixels worker1_stopped ! 1 = w_pixels worker1 ! 1"
    "w_pixels worker1_stopped ! 0 = V3 (sqrt (3/4)) (sqrt (17/20)) 1"
    by (simp_all add: worker1_stopped_def worker1_def)
  from render_tile_progressive_stop [OF render_tile_progressive_worker1 h, THEN conjunct1]
  have "\<exists>is js ws c.
      pixel_progressive ctl1 sc1 tile1 is js ws = Some (Returned worker1_stopped) \<and>
      wait_while_paused ctl1 (w_clock ws) = Some c \<and> stop_at ctl1 c \<and>
      (\<forall>i j. x_start tile1 \<le> i \<and> i < x_start tile1 + width tile1 \<and>
            y_start tile1 \<le> j \<and> j < y_start tile1 + height tile1 \<and>
            (js < j \<or> (j = js \<and> is \<le> i)) \<longrightarrow>
            w_pixels worker1_stopped ! nat (pixel_index (sc_nx sc1) i j) =
            w_pixels worker1 ! nat (pixel_index (sc_nx sc1) i j))"
    by blast
  with render_tile_progressive_worker1 h v show ?thesis by blast
qed

section \<open>Degenerate spheres and rays\<close>

lemma round_f32_zero: "round_f32 0 = 0"
  by (simp add: round_f32_def)

lemma round_f32_at:
  fixes E :: int
  assumes "2 powr (of_int E) \<le> \<bar>x\<bar>" and "\<bar>x\<bar> < 2 powr (of_int E + 1)"
    and "u = 2 powr (of_int E - 23)" and "round_even (x / u) = n"
  shows "round_f32 x = of_int n * u"
proof -
  have "(0::real) < 2 powr (of_int E)" by simp
  with assms(1) have pos: "0 < \<bar>x\<bar>" by linarith
  then have nz: "x \<noteq> 0" by simp
  have "\<lfloor>log 2 \<bar>x\<bar>\<rfloor> = E"
    using assms(1,2) pos by (simp add: floor_log_eq_powr_iff)
  then show ?thesis
    using nz assms(3,4) by (simp add: round_f32_def Let_def)
qed

lemma round_f32_ge1:
  fixes k :: nat
  assumes "2 ^ k \<le> \<bar>x\<bar>" and "\<bar>x\<bar> < 2 * 2 ^ k"
    and "round_even (x * 8388608 / 2 ^ k) = n" and "r = of_int n * 2 ^ k / 8388608"
  shows "round_f32 x = r"
proof -
  have p: "(2::real) powr (real k) = 2 ^ k" by (simp add: powr_realpow)
  have q: "(2::real) powr (real k + 1) = 2 * 2 ^ k"
    by (simp add: powr_add powr_realpow)
  have u: "(2::real) powr (real k - 23) = 2 ^ k / 8388608"
    by (simp add: powr_diff powr_realpow)
  have "round_f32 x = of_int n * (2 ^ k / 8388608)"
    by (rule round_f32_at[where E="int k"]) (simp_all add: p q u assms)
  then show ?thesis using assms(4) by simp
qed

lemma round_f32_lt1:
  fixes k :: nat
  assumes "1 / 2 ^ k \<le> \<bar>x\<bar>" and "\<bar>x\<bar> < 2 / 2 ^ k"
    and "round_even (x * 8388608 * 2 ^ k) = n" and "r = of_int n / (8388608 * 2 ^ k)"
  shows "round_f32 x = r"
proof -
  have p: "(2::real) powr (- real k) = 1 / 2 ^ k"
    by (simp add: powr_minus powr_realpow divide_inverse)
  have q: "(2::real) powr (1 - real k) = 2 / 2 ^ k"
    by (simp add: powr_diff powr_realpow)
  have "(2::real) powr (- real k - 23) = 2 powr (- real k) / 2 powr 23"
    by (rule powr_diff)
  then have u: "(2::real) powr (- real k - 23) = 1 / (8388608 * 2 ^ k)"
    by (simp add: p)
  have a3: "round_even (x * (8388608 * 2 ^ k)) = n" using assms(3) by (simp add: mult.assoc)
  have "round_f32 x = of_int n * (1 / (8388608 * 2 ^ k))"
    by (rule round_f32_at[where E="- int k"]) (simp_all add: p q u assms(1,2) a3)
  then show ?thesis using assms(4) by simp
qed

lemma round_f32_step_1: "round_f32 (- (1137/256)) = - (1137/256)"
  by (rule round_f32_ge1[where k=2 and n="-9314304"]) (simp_all add: round_even_def Let_def)

lemma round_f32_step_2: "round_f32 (- (3411/512)) = - (3411/512)"
  by (rule round_f32_ge1[where k=2 and n="-13971456"]) (simp_all add: round_even_def Let_def)

lemma round_f32_step_3: "round_f32 (4) = 4"
  by (rule round_f32_ge1[where k=2 and n=8388608]) (simp_all add: round_even_def Let_def)

lemma round_f32_step_4: "round_f32 (9) = 9"
  by (rule round_f32_ge1[where k=3 and n=9437184]) (simp_all add: round_even_def Let_def)

lemma round_f32_step_5: "round_f32 (13) = 13"
  by (rule round_f32_ge1[where k=3 and n=13631488]) (simp_all add: round_even_def Let_def)

lemma round_f32_step_6: "round_f32 (- (1137/128)) = - (1137/128)"
  by (rule round_f32_ge1[where k=3 and n="-9314304"]) (simp_all add: round_even_def Let_def)

lemma round_f32_step_7: "round_f32 (- (10233/512)) = - (10233/512)"
  by (rule round_f32_ge1[where k=4 and n="-10478592"]) (simp_all add: round_even_def Let_def)

lemma round_f32_step_8: "round_f32 (- (14781/512)) = - (14781/512)"
  by (rule round_f32_ge1[where k=4 and n="-15135744"]) (simp_all add: round_even_def Let_def)

lemma round_f32_step_9: "round_f32 (1292769/65536) = 1292769/65536"
  by (rule round_f32_ge1[where k=4 and n=10342152]) (simp_all add: round_even_def Let_def)

lemma round_f32_step_10: "round_f32 (11634921/262144) = 11634921/262144"
  by (rule round_f32_ge1[where k=5 and n=11634921]) (simp_all add: round_even_def Let_def)

lemma round_f32_step_11: "round_f32 (16805997/262144) = 4201499/65536"
  by (rule round_f32_ge1[where k=6 and n=8402998]) (simp_all add: round_even_def Let_def)

lemma round_f32_step_12: "round_f32 (4201499/65536) = 4201499/65536"
  by (rule round_f32_ge1[where k=6 and n=8402998]) (simp_all add: round_even_def Let_def)

lemma round_f32_step_13: "round_f32 (218477961/262144) = 13654873/16384"
  by (rule round_f32_ge1[where k=9 and n=13654873]) (simp_all add: round_even_def Let_def)

lemma round_f32_step_14: "round_f32 (54619487/65536) = 1706859/2048"
  by (rule round_f32_ge1[where k=9 and n=13654872]) (simp_all add: round_even_def Let_def)

lemma round_f32_step_15: "round_f32 (1/16384) = 1/16384"
  by (rule round_f32_lt1[where k=14 and n=8388608]) (simp_all add: round_even_def Let_def)

lemma round_f32_step_16: "round_f32 (1/128) = 1/128"
  by (rule round_f32_lt1[where k=7 and n=8388608]) (simp_all add: round_even_def Let_def)

lemma round_f32_step_17: "round_f32 (14777/512) = 14777/512"
  by (rule round_f32_ge1[where k=4 and n=15131648]) (simp_all add: round_even_def Let_def)

lemma round_f32_step_18: "round_f32 (14777/6656) = 9311783/4194304"
  by (rule round_f32_ge1[where k=1 and n=9311783]) (simp_all add: round_even_def Let_def)

lemma sqrt_desc: "sqrt (1/16384) = 1/128"
  by (rule real_sqrt_unique) (simp_all add: power2_eq_square)

lemma f32_oc: "sphere_oc_f32 s_point r_through = V3 0 (- (1137/256)) (- (3411/512))"
  by (simp add: sphere_oc_f32_def vsub_f32_def f_sub_def s_point_def r_through_def mkRay_def
      Origin_def V3_def round_f32_zero round_f32_step_1 round_f32_step_2)

lemmas f32_steps = round_f32_zero round_f32_step_1 round_f32_step_2 round_f32_step_3 round_f32_step_4 round_f32_step_5 round_f32_step_6 round_f32_step_7 round_f32_step_8 round_f32_step_9 round_f32_step_10 round_f32_step_11 round_f32_step_12 round_f32_step_13 round_f32_step_14 round_f32_step_15 round_f32_step_16 round_f32_step_17 round_f32_step_18

lemma r_through_dir: "Direction r_through = V3 0 2 3"
  by (simp add: r_through_def mkRay_def Direction_def)

lemma s_point_radius: "m_fRadius s_point = 0"
  by (simp add: s_point_def)

lemma f32_a: "sphere_a_f32 r_through = 13"
  by (simp add: sphere_a_f32_def r_through_dir Dot_f32_def f_add_def f_mul_def V3_def f32_steps)

lemma f32_b: "sphere_b_f32 s_point r_through = - (14781/512)"
  by (simp add: sphere_b_f32_def f32_oc r_through_dir Dot_f32_def f_add_def f_mul_def V3_def
      f32_steps)

lemma f32_c: "sphere_c_f32 s_point r_through = 4201499/65536"
  by (simp add: sphere_c_f32_def f32_oc s_point_radius Dot_f32_def f_add_def f_mul_def f_sub_def
      V3_def f32_steps)

lemma f32_desc: "sphere_desc_f32 s_point r_through = 1/16384"
  by (simp add: sphere_desc_f32_def f32_a f32_b f32_c f_mul_def f_sub_def f32_steps)

lemma f32_t:
  "f_div (f_sub (- sphere_b_f32 s_point r_through) (f_sqrt (1/16384)))
         (sphere_a_f32 r_through) = 9311783/4194304"
  by (simp add: f32_a f32_b f_div_def f_sub_def f_sqrt_def sqrt_desc f32_steps)

text \<open>
  Claim C9 says that a sphere of radius exactly zero never reports a hit. \<open>Sphere::Hit\<close>
  has no test for the radius; it relies on the discriminant, which for radius zero is
  \<open>b\<^sup>2 - a c \<le> 0\<close> only when it is evaluated exactly. For the point sphere \<open>s_point\<close> and
  the ray \<open>r_through\<close>, which passes through its centre, single precision rounds
  \<open>b * b\<close> to \<open>13654873 / 16384\<close> and \<open>a * c\<close> to \<open>13654872 / 16384\<close>: the
  discriminant is \<open>2\<^sup>-\<^sup>1\<^sup>4\<close>, and a hit at \<open>t = 9311783 / 4194304\<close> is reported, whose
  normal is a quotient by the radius zero.
\<close>

theorem Sphere_Hit_f32_zero_radius_counterexample:
  "m_fRadius s_point = 0 \<and>
   fst (Sphere_Hit_f32 s_point r_through (1/1000) FLT_MAX rec0) \<and>
   m_fT (snd (Sphere_Hit_f32 s_point r_through (1/1000) FLT_MAX rec0)) = 9311783/4194304"
  by (simp add: Sphere_Hit_f32_def Let_def f32_desc f32_t FLT_MAX_def sphere_record_f32_def
      s_point_radius)

lemma cauchy_schwarz_desc:
  "Dot oc d * Dot oc d - Dot d d * Dot oc oc \<le> 0"
proof -
  have "Dot d d * Dot oc oc - Dot oc d * Dot oc d =
        (e0 oc * e1 d - e1 oc * e0 d) * (e0 oc * e1 d - e1 oc * e0 d) +
        (e0 oc * e2 d - e2 oc * e0 d) * (e0 oc * e2 d - e2 oc * e0 d) +
        (e1 oc * e2 d - e2 oc * e1 d) * (e1 oc * e2 d - e2 oc * e1 d)"
    by (simp add: Dot_def algebra_simps)
  moreover have "0 \<le> (e0 oc * e1 d - e1 oc * e0 d) * (e0 oc * e1 d - e1 oc * e0 d) +
        (e0 oc * e2 d - e2 oc * e0 d) * (e0 oc * e2 d - e2 oc * e0 d) +
        (e1 oc * e2 d - e2 oc * e1 d) * (e1 oc * e2 d - e2 oc * e1 d)"
    by (intro add_nonneg_nonneg) simp_all
  ultimately show ?thesis by linarith
qed

lemma zero_radius_exact:
  "m_fRadius s = 0 \<Longrightarrow> Sphere_Hit s r tMin tMax rec = (False, rec)"
  using cauchy_schwarz_desc[of "sphere_oc s r" "Direction r"]
  by (simp add: Sphere_Hit_unfold sphere_desc_def sphere_a_def sphere_b_def sphere_c_def)

lemma zero_direction_exact:
  "Direction r = V3 0 0 0 \<Longrightarrow> Sphere_Hit s r tMin tMax rec = (False, rec)"
  by (simp add: Sphere_Hit_unfold sphere_desc_def sphere_a_def sphere_b_def Dot_def V3_def)

lemma zero_direction_f32:
  "Direction r = V3 0 0 0 \<Longrightarrow> Sphere_Hit_f32 s r tMin tMax rec = (False, rec)"
proof -
  assume d: "Direction r = V3 0 0 0"
  have a: "sphere_a_f32 r = 0"
    by (simp add: sphere_a_f32_def d Dot_f32_def f_add_def f_mul_def V3_def round_f32_zero)
  have b: "sphere_b_f32 s r = 0"
    by (simp add: sphere_b_f32_def d Dot_f32_def f_add_def f_mul_def V3_def round_f32_zero)
  have "sphere_desc_f32 s r = 0"
    by (simp add: sphere_desc_f32_def a b f_sub_def f_mul_def round_f32_zero)
  then show ?thesis by (simp add: Sphere_Hit_f32_def Let_def)
qed

text \<open>
  Claim C9, amended. For every ray whose direction is the zero vector \<open>Sphere::Hit\<close>
  reports no hit and leaves the record alone, for every sphere and interval, in exact
  arithmetic and in single precision alike: \<open>a\<close> and \<open>b\<close> are zero, so the discriminant
  is zero and no division takes place. For every sphere of radius zero it reports no hit
  when the discriminant is evaluated exactly.
\<close>

theorem Sphere_Hit_degenerate:
  "(Direction r = V3 0 0 0 \<longrightarrow>
      Sphere_Hit s r tMin tMax rec = (False, rec) \<and>
      Sphere_Hit_f32 s r tMin tMax rec = (False, rec)) \<and>
   (m_fRadius s = 0 \<longrightarrow> Sphere_Hit s r tMin tMax rec = (False, rec))"
  by (simp add: zero_radius_exact zero_direction_exact zero_direction_f32)

theorem Sphere_Hit_degenerate_witness:
  "Direction r_still = V3 0 0 0 \<and>
   Sphere_Hit s0 r_still (1/1000) FLT_MAX rec0 = (False, rec0) \<and>
   Sphere_Hit_f32 s0 r_still (1/1000) FLT_MAX rec0 = (False, rec0) \<and>
   m_fRadius s_point = 0 \<and>
   Sphere_Hit s_point r_through (1/1000) FLT_MAX rec0 = (False, rec0)"
proof -
  have d: "Direction r_still = V3 0 0 0" by (simp add: r_still_def mkRay_def Direction_def)
  show ?thesis
    using d s_point_radius
      Sphere_Hit_degenerate [of r_still s0 "1/1000" FLT_MAX rec0]
      Sphere_Hit_degenerate [of r_through s_point "1/1000" FLT_MAX rec0]
    by simp
qed

end
